(* ===== verification/SW_Prelude.thy ===== *)
theory SW_Prelude
  imports Main "HOL-Library.AList"
begin

text \<open>
  Shared vocabulary of the service-worker development: URLs as strings, the
  JavaScript exceptions the browser APIs reject with, and the model of a
  JavaScript promise chain as a state transformer that either resolves with a
  value or rejects with an error.  A promise built by \<open>.then\<close> runs its
  first stage, and on resolution feeds the value to the callback; a rejection
  skips every later \<open>.then\<close> stage, while the effects that were already
  performed on the host state stay.  The collection \<open>sw_simps\<close> gathers the
  evaluation rules of the combinators; component theories add the equations of
  their operations to it.
\<close>

named_theorems sw_simps "evaluation rules of promise chains and host operations"

type_synonym url = string

datatype js_error = TypeError | InvalidStateError

text \<open>A promise over host state \<open>'s\<close>: resolution with \<open>Inr\<close>, rejection with \<open>Inl\<close>.\<close>

type_synonym ('s, 'a) promise = "'s \<Rightarrow> (js_error + 'a) \<times> 's"

definition p_resolve :: "'a \<Rightarrow> ('s, 'a) promise" where
  "p_resolve a s = (Inr a, s)"

definition p_reject :: "js_error \<Rightarrow> ('s, 'a) promise" where
  "p_reject e s = (Inl e, s)"

definition p_then :: "('s, 'a) promise \<Rightarrow> ('a \<Rightarrow> ('s, 'b) promise) \<Rightarrow> ('s, 'b) promise" where
  "p_then p f s = (case p s of (Inl e, s') \<Rightarrow> (Inl e, s') | (Inr a, s') \<Rightarrow> f a s')"

lemma p_then_resolve [sw_simps]: "p_then (p_resolve a) f = f a"
  by (simp add: p_then_def p_resolve_def fun_eq_iff)

lemma p_then_reject [sw_simps]: "p_then (p_reject e) f = p_reject e"
  by (simp add: p_then_def p_reject_def fun_eq_iff)

lemma p_then_assoc: "p_then (p_then p f) g = p_then p (\<lambda>a. p_then (f a) g)"
  by (simp add: p_then_def fun_eq_iff split: prod.splits sum.splits)

lemma p_then_Inr [sw_simps]: "p s = (Inr a, s') \<Longrightarrow> p_then p f s = f a s'"
  by (simp add: p_then_def)

lemma p_then_Inl [sw_simps]: "p s = (Inl e, s') \<Longrightarrow> p_then p f s = (Inl e, s')"
  by (simp add: p_then_def)

lemma p_then_resolve_right [sw_simps]: "p_then p p_resolve = p"
  by (simp add: p_then_def p_resolve_def fun_eq_iff split: prod.splits sum.splits)

subsection \<open>Lists of optional results\<close>

text \<open>
  \<open>those\<close> (from \<open>List\<close>) turns a list of optional results into an optional
  list: it is how an all-or-nothing batch of requests is read.
\<close>

lemma those_eq_Some_iff:
  "those xs = Some ys \<longleftrightarrow> (None \<notin> set xs \<and> ys = map the xs)"
  by (induction xs arbitrary: ys) (auto split: option.splits)

lemma those_eq_None_iff: "those xs = None \<longleftrightarrow> None \<in> set xs"
  by (induction xs) (auto split: option.splits)

lemma those_map_Some [simp]: "those (map Some xs) = Some xs"
  by (induction xs) auto

lemma zip_map_self: "zip xs (map f xs) = map (\<lambda>x. (x, f x)) xs"
  by (induction xs) auto

lemma sum_list_map_update_less:
  fixes f :: "'a \<Rightarrow> nat"
  assumes "i < length xs" and "f x < f (xs ! i)"
  shows "sum_list (map f (xs[i := x])) < sum_list (map f xs)"
proof -
  have "sum_list (map f (xs[i := x])) = sum_list (map f xs) + f x - f (xs ! i)"
    using assms(1) sum_list_update [of i "map f xs" "f x"] by (simp add: map_update)
  moreover have "f (xs ! i) \<le> sum_list (map f xs)"
    using assms(1) elem_le_sum_list [of i "map f xs"] by simp
  ultimately show ?thesis using assms(2) by arith
qed

lemma find_SomeD: "List.find P xs = Some x \<Longrightarrow> x \<in> set xs \<and> P x"
  by (auto simp: find_Some_iff)

subsection \<open>Ordered name maps\<close>

text \<open>
  A JavaScript ordered map is an association list without duplicate keys;
  \<open>AList.update\<close> overwrites in place or appends at the end, as an ordered
  map's \<open>set\<close> does.
\<close>

lemma map_of_update_other [simp]:
  "k' \<noteq> k \<Longrightarrow> map_of (AList.update k v al) k' = map_of al k'"
  by (simp add: update_conv')

lemma map_of_update_same [simp]: "map_of (AList.update k v al) k = Some v"
  by (simp add: update_conv')

end
