(* ===== verification/Fetch_API.thy ===== *)
theory Fetch_API
  imports SW_Prelude
begin

text \<open>
  The part of the browser's Fetch API that src/sw.js uses: requests (a URL and a
  method), responses (a status and a body), the network as a
  function from a request to a response or a network error, and the global
  \<open>fetch\<close>, which sends one request and records it in the log of network
  traffic.  \<open>fetch\<close> rejects with a \<open>TypeError\<close> on a network error and
  resolves on every HTTP status, 404 and 500 included.  Relative URLs, such as the
  \<open>'./index.html'\<close> of the asset list, are resolved against the directory of the
  worker script.  These are host operations, not code of the repository: they are
  modelled from the Fetch and URL standards, as far as the script depends on them.
\<close>

datatype http_method = GET | HEAD | POST | PUT | DELETE | PATCH | OPTIONS

record request =
  req_url :: url
  req_method :: http_method

record response =
  status :: nat
  body :: string

text \<open>The network at one moment: \<open>None\<close> is a network error (offline, DNS, refused).\<close>

type_synonym network = "request \<Rightarrow> response option"

text \<open>The network traffic the worker causes, as an extensible record, so that any
  host state that carries it can be used with \<open>net_fetch\<close>.\<close>

record net_state =
  net_log :: "request list"

definition net_fetch :: "network \<Rightarrow> request \<Rightarrow> ('a net_state_scheme, response) promise" where
  "net_fetch N q s =
     (let s' = s\<lparr>net_log := net_log s @ [q]\<rparr>
      in case N q of None \<Rightarrow> (Inl TypeError, s') | Some r \<Rightarrow> (Inr r, s'))"

text \<open>A response is \<open>ok\<close> when its status is in the range 200 to 299.\<close>

definition response_ok :: "response \<Rightarrow> bool" where
  "response_ok r \<longleftrightarrow> 200 \<le> status r \<and> status r \<le> 299"

text \<open>
  URL handling.  A URL is compared for cache matching with its fragment excluded.
  A path-relative reference \<open>./p\<close> or \<open>p\<close> is resolved against the directory of
  the base URL: the base without its query and fragment, and with its last path
  segment removed.  References with
  \<open>..\<close> segments, a scheme or a query are not used by the script and not
  modelled.
\<close>

definition exclude_fragment :: "url \<Rightarrow> url" where
  "exclude_fragment u = takeWhile (\<lambda>c. c \<noteq> CHR ''#'') u"

definition strip_query_fragment :: "url \<Rightarrow> url" where
  "strip_query_fragment u = takeWhile (\<lambda>c. c \<noteq> CHR ''?'' \<and> c \<noteq> CHR ''#'') u"

definition base_dir :: "url \<Rightarrow> url" where
  "base_dir u = rev (dropWhile (\<lambda>c. c \<noteq> CHR ''/'') (rev (strip_query_fragment u)))"

definition resolve_url :: "url \<Rightarrow> string \<Rightarrow> url" where
  "resolve_url base p =
     (if take 2 p = ''./'' then base_dir base @ drop 2 p else base_dir base @ p)"

text \<open>\<open>new Request(p)\<close> for a string \<open>p\<close>: a GET request for the resolved URL.\<close>

definition new_request :: "url \<Rightarrow> string \<Rightarrow> request" where
  "new_request base p = \<lparr>req_url = resolve_url base p, req_method = GET\<rparr>"

lemmas fetch_defs [sw_simps] = net_fetch_def response_ok_def new_request_def resolve_url_def
  base_dir_def strip_query_fragment_def

subsection \<open>Properties of fetch and of URLs\<close>

text \<open>\<open>fetch\<close> appends exactly the one request it sends to the log.\<close>

lemma net_fetch_log: "net_log (snd (net_fetch N q s)) = net_log s @ [q]"
  by (simp add: net_fetch_def Let_def split: option.splits)

lemma net_fetch_result:
  "fst (net_fetch N q s) = (case N q of None \<Rightarrow> Inl TypeError | Some r \<Rightarrow> Inr r)"
  by (simp add: net_fetch_def Let_def split: option.splits)

lemma exclude_fragment_idem [simp]:
  "exclude_fragment (exclude_fragment u) = exclude_fragment u"
  by (simp add: exclude_fragment_def takeWhile_idem)

lemma exclude_fragment_no_hash:
  "CHR ''#'' \<notin> set u \<Longrightarrow> exclude_fragment u = u"
  by (auto simp: exclude_fragment_def takeWhile_eq_all_conv)

lemma strip_query_fragment_no_hash: "CHR ''#'' \<notin> set (strip_query_fragment u)"
  by (auto simp: strip_query_fragment_def dest: set_takeWhileD)

lemma base_dir_no_hash: "CHR ''#'' \<notin> set (base_dir u)"
proof -
  have "set (base_dir u) \<subseteq> set (strip_query_fragment u)"
    by (auto simp: base_dir_def dest: set_dropWhileD)
  then show ?thesis using strip_query_fragment_no_hash by blast
qed

lemma base_dir_last_segment:
  assumes "CHR ''/'' \<notin> set seg" and "\<forall>c\<in>set (d @ CHR ''/'' # seg). c \<noteq> CHR ''?'' \<and> c \<noteq> CHR ''#''"
  shows "base_dir (d @ CHR ''/'' # seg) = d @ ''/''"
proof -
  from assms(2) have "strip_query_fragment (d @ CHR ''/'' # seg) = d @ CHR ''/'' # seg"
    by (simp add: strip_query_fragment_def takeWhile_eq_all_conv)
  moreover have "rev (d @ CHR ''/'' # seg) = rev seg @ CHR ''/'' # rev d" by simp
  moreover have "dropWhile (\<lambda>c. c \<noteq> CHR ''/'') (rev seg @ CHR ''/'' # rev d) = CHR ''/'' # rev d"
    using assms(1) by (subst dropWhile_append2) auto
  ultimately show ?thesis by (simp add: base_dir_def)
qed

end
