(* ===== verification/Cache_Storage.thy ===== *)
theory Cache_Storage
  imports Fetch_API
begin

text \<open>
  The Cache Storage API of the browser, as the script calls it: the origin's
  ordered map from cache names to caches (\<open>caches\<close>), each cache a request
  response list in insertion order; \<open>caches.open(name)\<close>, which creates an empty
  cache at the end of the map when the name is absent; \<open>caches.match(request)\<close>,
  which asks every cache in the map's order and resolves with the first match,
  or with \<open>undefined\<close>; and \<open>cache.addAll(paths)\<close>, which resolves every path
  to a GET request, sends them all to the network, rejects with a
  \<open>TypeError\<close> when a fetch fails or a response is not ok (or is a 206), and
  otherwise stores all responses in one atomic batch, which rejects with an
  \<open>InvalidStateError\<close> when two requests of the batch match each other.
  Matching follows ``Request Matches Cached Item'' with the default options: the
  query must be a GET request, and the URLs are compared with their fragments
  excluded.  \<open>Vary\<close> headers, \<open>ignoreSearch\<close>, opaque responses and quota
  errors are not modelled.  The host state extends the network log of
  \<^theory_text>\<open>Fetch_API\<close> with the cache map and the URL of the worker script.
\<close>

type_synonym cache = "(request \<times> response) list"
type_synonym cache_map = "(string \<times> cache) list"

record host = net_state +
  caches :: cache_map
  script_url :: url

subsection \<open>Matching\<close>

definition match_key :: "request \<Rightarrow> url" where
  "match_key q = exclude_fragment (req_url q)"

definition request_matches :: "request \<Rightarrow> request \<Rightarrow> bool" where
  "request_matches q r \<longleftrightarrow> req_method q = GET \<and> match_key q = match_key r"

definition query_cache :: "request \<Rightarrow> cache \<Rightarrow> (request \<times> response) list" where
  "query_cache q c = filter (\<lambda>(r, _). request_matches q r) c"

text \<open>\<open>cache.match(q)\<close>: the first matching entry, in insertion order.\<close>

definition cache_match :: "request \<Rightarrow> cache \<Rightarrow> response option" where
  "cache_match q c = (case query_cache q c of [] \<Rightarrow> None | (_, r) # _ \<Rightarrow> Some r)"

text \<open>\<open>caches.match(q)\<close>: the first cache of the map, in its order, that matches.\<close>

fun match_caches :: "request \<Rightarrow> cache_map \<Rightarrow> response option" where
  "match_caches q [] = None"
| "match_caches q ((_, c) # cs) =
     (case cache_match q c of Some r \<Rightarrow> Some r | None \<Rightarrow> match_caches q cs)"

definition caches_match :: "request \<Rightarrow> ('a host_scheme, response option) promise" where
  "caches_match q h = (Inr (match_caches q (caches h)), h)"

subsection \<open>Opening a cache\<close>

text \<open>The cache object is represented by its name.\<close>

definition caches_open :: "string \<Rightarrow> ('a host_scheme, string) promise" where
  "caches_open name h =
     (if map_of (caches h) name = None
      then (Inr name, h\<lparr>caches := caches h @ [(name, [])]\<rparr>)
      else (Inr name, h))"

definition cache_of :: "'a host_scheme \<Rightarrow> string \<Rightarrow> cache" where
  "cache_of h name = (case map_of (caches h) name of None \<Rightarrow> [] | Some c \<Rightarrow> c)"

subsection \<open>Batch put and addAll\<close>

text \<open>One put of a batch: remove the entries the request matches, append the pair.\<close>

definition put_entry :: "cache \<Rightarrow> request \<times> response \<Rightarrow> cache" where
  "put_entry c qr = filter (\<lambda>(r, _). \<not> request_matches (fst qr) r) c @ [qr]"

text \<open>
  ``Batch Cache Operations'' for a list of puts: \<open>added\<close> holds the pairs put so
  far; a request that matches one of them rejects the whole batch, and the cache
  is then left as it was (the caller keeps the old cache on \<open>Inl\<close>).
\<close>

fun batch_put :: "cache \<Rightarrow> cache \<Rightarrow> (request \<times> response) list \<Rightarrow> js_error + cache" where
  "batch_put c added [] = Inr c"
| "batch_put c added (qr # ops) =
     (if query_cache (fst qr) added \<noteq> [] then Inl InvalidStateError
      else batch_put (put_entry c qr) (added @ [qr]) ops)"

definition cacheable :: "response \<Rightarrow> bool" where
  "cacheable r \<longleftrightarrow> response_ok r \<and> status r \<noteq> 206"

definition add_all :: "network \<Rightarrow> string \<Rightarrow> string list \<Rightarrow> ('a host_scheme, unit) promise" where
  "add_all N name paths h =
     (let reqs = map (new_request (script_url h)) paths;
          h1 = h\<lparr>net_log := net_log h @ reqs\<rparr>
      in case those (map N reqs) of
           None \<Rightarrow> (Inl TypeError, h1)
         | Some resps \<Rightarrow>
             if \<not> list_all cacheable resps then (Inl TypeError, h1)
             else (case batch_put (cache_of h1 name) [] (zip reqs resps) of
                     Inl e \<Rightarrow> (Inl e, h1)
                   | Inr c \<Rightarrow> (Inr (), h1\<lparr>caches := AList.update name c (caches h1)\<rparr>)))"

text \<open>The second half of \<open>addAll\<close>, once its requests are sent: wait for every
  response, then run the batch on the cache as it is at that moment.\<close>

definition add_all_commit :: "network \<Rightarrow> string \<Rightarrow> request list \<Rightarrow> ('a host_scheme, unit) promise" where
  "add_all_commit N name reqs h1 =
     (case those (map N reqs) of
        None \<Rightarrow> (Inl TypeError, h1)
      | Some resps \<Rightarrow>
          if \<not> list_all cacheable resps then (Inl TypeError, h1)
          else (case batch_put (cache_of h1 name) [] (zip reqs resps) of
                  Inl e \<Rightarrow> (Inl e, h1)
                | Inr c \<Rightarrow> (Inr (), h1\<lparr>caches := AList.update name c (caches h1)\<rparr>)))"

text \<open>Every response of a list of requests is there and can be cached.\<close>

definition all_cacheable :: "network \<Rightarrow> request list \<Rightarrow> bool" where
  "all_cacheable N reqs = list_all (\<lambda>q. case N q of None \<Rightarrow> False | Some r \<Rightarrow> cacheable r) reqs"

text \<open>The keys of a batch: the fragment-free URLs of its requests.\<close>

abbreviation batch_keys :: "(request \<times> response) list \<Rightarrow> url list" where
  "batch_keys ops \<equiv> map (match_key \<circ> fst) ops"

abbreviation all_GET :: "(request \<times> response) list \<Rightarrow> bool" where
  "all_GET ops \<equiv> (\<forall>qr\<in>set ops. req_method (fst qr) = GET)"

subsection \<open>Deleting caches and losing storage\<close>

text \<open>\<open>caches.delete(name)\<close>: removes the named cache and resolves with whether
  there was one.\<close>

definition caches_delete :: "string \<Rightarrow> ('a host_scheme, bool) promise" where
  "caches_delete name h =
     (if map_of (caches h) name = None then (Inr False, h)
      else (Inr True, h\<lparr>caches := AList.delete name (caches h)\<rparr>))"

text \<open>Eviction under storage pressure: the browser clears the origin's best-effort
  storage bucket as a whole, so every cache of the map goes at once.\<close>

definition evict_storage :: "'a host_scheme \<Rightarrow> 'a host_scheme" where
  "evict_storage h = h\<lparr>caches := []\<rparr>"

lemmas cache_defs [sw_simps] = caches_match_def caches_open_def

subsection \<open>Matching after a put\<close>

text \<open>A put answers every later query that matches its request with its response.\<close>

lemma cache_match_put_same:
  assumes "request_matches q (fst qr)" and "req_method (fst qr) = GET"
  shows "cache_match q (put_entry c qr) = Some (snd qr)"
proof -
  have "filter (\<lambda>(r, _). request_matches q r) (filter (\<lambda>(r, _). \<not> request_matches (fst qr) r) c) = []"
    using assms by (auto simp: filter_empty_conv request_matches_def)
  with assms(1) show ?thesis
    by (cases qr) (simp add: cache_match_def query_cache_def put_entry_def)
qed

text \<open>and leaves the answer to every other query as it was.\<close>

lemma query_cache_put_other:
  assumes "\<not> request_matches q (fst qr)"
  shows "query_cache q (put_entry c qr) = query_cache q c"
proof -
  have "filter (\<lambda>(r, _). request_matches q r) (filter (\<lambda>(r, _). \<not> request_matches (fst qr) r) c)
        = filter (\<lambda>(r, _). request_matches q r) c"
    using assms by (auto simp: filter_filter request_matches_def intro!: filter_cong)
  with assms show ?thesis
    by (cases qr) (simp add: query_cache_def put_entry_def)
qed

lemma cache_match_put_other:
  "\<not> request_matches q (fst qr) \<Longrightarrow> cache_match q (put_entry c qr) = cache_match q c"
  by (simp add: cache_match_def query_cache_put_other)

subsection \<open>Batches\<close>

lemma query_cache_Nil_iff:
  "req_method q = GET \<Longrightarrow> query_cache q added = [] \<longleftrightarrow> match_key q \<notin> set (batch_keys added)"
  by (force simp: query_cache_def filter_empty_conv request_matches_def)

text \<open>A batch of GET puts with distinct keys succeeds and performs the puts in order.\<close>

lemma batch_put_distinct:
  "all_GET ops \<Longrightarrow> distinct (batch_keys (added @ ops)) \<Longrightarrow>
   batch_put c added ops = Inr (fold (\<lambda>qr c. put_entry c qr) ops c)"
proof (induction ops arbitrary: c added)
  case Nil
  then show ?case by simp
next
  case (Cons qr ops)
  then have "query_cache (fst qr) added = []"
    by (simp add: query_cache_Nil_iff)
  with Cons show ?case by simp
qed

text \<open>A batch with two requests of the same key rejects, whatever the cache.\<close>

lemma batch_put_duplicate:
  "all_GET ops \<Longrightarrow> distinct (batch_keys added) \<Longrightarrow> \<not> distinct (batch_keys (added @ ops)) \<Longrightarrow>
   batch_put c added ops = Inl InvalidStateError"
proof (induction ops arbitrary: c added)
  case Nil
  then show ?case by simp
next
  case (Cons qr ops)
  show ?case
  proof (cases "match_key (fst qr) \<in> set (batch_keys added)")
    case True
    with Cons.prems(1) have "query_cache (fst qr) added \<noteq> []"
      by (simp add: query_cache_Nil_iff)
    then show ?thesis by simp
  next
    case False
    with Cons.prems(1) have "query_cache (fst qr) added = []"
      by (simp add: query_cache_Nil_iff)
    with False Cons.prems Cons.IH [of "added @ [qr]"] show ?thesis by simp
  qed
qed

text \<open>After a batch of puts with distinct keys, a query matching one of them
  finds that one's response; any other query finds what it found before.\<close>

lemma cache_match_fold_put_in:
  "all_GET ops \<Longrightarrow> distinct (batch_keys ops) \<Longrightarrow> qr \<in> set ops \<Longrightarrow> request_matches q (fst qr) \<Longrightarrow>
   cache_match q (fold (\<lambda>qr c. put_entry c qr) ops c) = Some (snd qr)"
proof (induction ops arbitrary: c)
  case Nil
  then show ?case by simp
next
  case (Cons op ops)
  show ?case
  proof (cases "qr = op")
    case True
    with Cons.prems have "\<forall>x\<in>set ops. \<not> request_matches q (fst x)"
      by (auto simp: request_matches_def)
    then have "cache_match q (fold (\<lambda>qr c. put_entry c qr) ops c') = cache_match q c'" for c'
      by (induction ops arbitrary: c') (simp_all add: cache_match_put_other)
    with True Cons.prems show ?thesis by (simp add: cache_match_put_same)
  next
    case False
    with Cons.prems Cons.IH show ?thesis by simp
  qed
qed

lemma cache_match_fold_put_notin:
  "\<forall>x\<in>set ops. \<not> request_matches q (fst x) \<Longrightarrow>
   cache_match q (fold (\<lambda>qr c. put_entry c qr) ops c) = cache_match q c"
  by (induction ops arbitrary: c) (simp_all add: cache_match_put_other)

subsection \<open>addAll on every branch\<close>

lemma new_request_GET [simp]: "req_method (new_request base p) = GET"
  by (simp add: new_request_def)

text \<open>A batch of GET puts with distinct keys leaves the entries of the other keys in
  their order and appends one entry per put.\<close>

lemma fold_put_entry_eq:
  "all_GET ops \<Longrightarrow> distinct (batch_keys ops) \<Longrightarrow>
   fold (\<lambda>qr c. put_entry c qr) ops c =
     filter (\<lambda>(r, _). match_key r \<notin> set (batch_keys ops)) c @ ops"
proof (induction ops arbitrary: c)
  case Nil
  then show ?case by (simp add: case_prod_beta)
next
  case (Cons qr ops)
  have k: "match_key (fst qr) \<notin> set (batch_keys ops)" using Cons.prems(2) by simp
  have "fold (\<lambda>qr c. put_entry c qr) (qr # ops) c = fold (\<lambda>qr c. put_entry c qr) ops (put_entry c qr)"
    by simp
  also have "\<dots> = filter (\<lambda>(r, _). match_key r \<notin> set (batch_keys ops)) (put_entry c qr) @ ops"
    using Cons by simp
  also have "\<dots> = filter (\<lambda>(r, _). match_key r \<notin> set (batch_keys (qr # ops))) c @ qr # ops"
    using Cons.prems(1) k
    by (cases qr) (auto simp: put_entry_def request_matches_def filter_filter case_prod_beta image_iff intro!: filter_cong)
  finally show ?case .
qed

lemma batch_keys_zip:
  "length resps = length reqs \<Longrightarrow> batch_keys (zip reqs resps) = map match_key reqs"
  by (induction reqs arbitrary: resps) (auto simp: length_Suc_conv)

lemma all_GET_zip:
  "\<forall>q\<in>set reqs. req_method q = GET \<Longrightarrow> all_GET (zip reqs resps)"
  by (auto dest: set_zip_leftD)

lemma cache_of_net_log [simp]: "cache_of (h\<lparr>net_log := l\<rparr>) name = cache_of h name"
  by (simp add: cache_of_def)

lemma those_all_cacheable:
  assumes "those (map N reqs) = Some resps"
  shows "list_all cacheable resps \<longleftrightarrow> all_cacheable N reqs"
proof -
  from assms have nn: "\<forall>q\<in>set reqs. N q \<noteq> None" and "resps = map (the \<circ> N) reqs"
    by (force simp: those_eq_Some_iff)+
  then show ?thesis
    by (auto simp: all_cacheable_def list_all_iff split: option.splits)
qed

lemma those_None_not_cacheable:
  "those (map N reqs) = None \<Longrightarrow> \<not> all_cacheable N reqs"
proof -
  assume "those (map N reqs) = None"
  then obtain q where "q \<in> set reqs" and "N q = None"
    by (auto simp: those_eq_None_iff)
  then show ?thesis by (auto simp: all_cacheable_def list_all_iff intro!: bexI [of _ q])
qed

text \<open>
  The three outcomes of \<open>cache.addAll\<close>: a \<open>TypeError\<close> when a fetch fails or a
  response cannot be cached, an \<open>InvalidStateError\<close> when two paths resolve to
  the same fragment-free URL, and otherwise the puts of the whole batch.  The
  requests are sent in every case, and the cache map changes only on success.
\<close>

lemma add_all_eq:
  "add_all N name paths h =
     (let reqs = map (new_request (script_url h)) paths;
          h1 = h\<lparr>net_log := net_log h @ reqs\<rparr>
      in if \<not> all_cacheable N reqs then (Inl TypeError, h1)
         else if \<not> distinct (map match_key reqs) then (Inl InvalidStateError, h1)
         else (Inr (), h1\<lparr>caches := AList.update name
                  (fold (\<lambda>qr c. put_entry c qr) (zip reqs (map (the \<circ> N) reqs)) (cache_of h name))
                  (caches h)\<rparr>))"
proof -
  define reqs where "reqs = map (new_request (script_url h)) paths"
  have get: "\<forall>q\<in>set reqs. req_method q = GET" by (simp add: reqs_def)
  show ?thesis
  proof (cases "those (map N reqs)")
    case None
    then show ?thesis
      by (simp add: add_all_def Let_def those_None_not_cacheable reqs_def [symmetric])
  next
    case (Some resps)
    then have resps: "resps = map (the \<circ> N) reqs" and len: "length resps = length reqs"
      by (auto simp: those_eq_Some_iff)
    have keys: "batch_keys (zip reqs resps) = map match_key reqs"
      using len by (rule batch_keys_zip)
    have "all_GET (zip reqs resps)" using get by (rule all_GET_zip)
    with keys Some show ?thesis
      by (simp add: add_all_def Let_def those_all_cacheable reqs_def [symmetric] resps
            batch_put_distinct batch_put_duplicate)
  qed
qed

text \<open>\<open>addAll\<close> is its two halves: send every request, then commit.\<close>

lemma add_all_split:
  "add_all N name paths h =
     (let reqs = map (new_request (script_url h)) paths
      in add_all_commit N name reqs (h\<lparr>net_log := net_log h @ reqs\<rparr>))"
  by (simp add: add_all_def add_all_commit_def Let_def)

text \<open>The outcome of the commit and the caches it leaves depend on the caches only.\<close>

lemma add_all_commit_caches:
  assumes "caches h = caches h'"
  shows "fst (add_all_commit N name reqs h) = fst (add_all_commit N name reqs h') \<and>
         caches (snd (add_all_commit N name reqs h)) = caches (snd (add_all_commit N name reqs h'))"
proof -
  have "cache_of h name = cache_of h' name" using assms by (simp add: cache_of_def)
  with assms show ?thesis
    by (simp add: add_all_commit_def split: option.splits sum.splits)
qed

lemma add_all_commit_frame [simp]:
  "script_url (snd (add_all_commit N name reqs h)) = script_url h \<and>
   net_log (snd (add_all_commit N name reqs h)) = net_log h"
  by (simp add: add_all_commit_def split: option.splits sum.splits)

lemma add_all_net_log:
  "net_log (snd (add_all N name paths h)) = net_log h @ map (new_request (script_url h)) paths"
  by (simp add: add_all_eq Let_def)

lemma add_all_script_url: "script_url (snd (add_all N name paths h)) = script_url h"
  by (simp add: add_all_eq Let_def)

lemma add_all_reject_keeps_caches:
  "fst (add_all N name paths h) = Inl e \<Longrightarrow> caches (snd (add_all N name paths h)) = caches h"
  by (simp add: add_all_eq Let_def split: if_splits)

lemma add_all_resolves_iff:
  "fst (add_all N name paths h) = Inr u \<longleftrightarrow>
     all_cacheable N (map (new_request (script_url h)) paths) \<and>
     distinct (map match_key (map (new_request (script_url h)) paths))"
  by (simp add: add_all_eq Let_def)

text \<open>A cache other than the one added to is not touched.\<close>

lemma add_all_other_cache:
  "name' \<noteq> name \<Longrightarrow> map_of (caches (snd (add_all N name paths h))) name' = map_of (caches h) name'"
  by (simp add: add_all_eq Let_def)

lemma cache_of_update_same [simp]:
  "cache_of (h\<lparr>caches := AList.update n c cs\<rparr>) n = c"
  by (simp add: cache_of_def)

text \<open>After a resolved \<open>addAll\<close>, every query that matches one of the paths finds
  the response the network gave for it.\<close>

lemma add_all_stores:
  assumes ok: "fst (add_all N name paths h) = Inr ()"
    and p: "p \<in> set paths"
    and m: "request_matches q (new_request (script_url h) p)"
  shows "cache_match q (cache_of (snd (add_all N name paths h)) name) = N (new_request (script_url h) p)"
proof -
  define reqs where "reqs = map (new_request (script_url h)) paths"
  let ?x = "new_request (script_url h) p"
  from ok have all: "all_cacheable N reqs" and dist: "distinct (map match_key reqs)"
    by (simp_all add: add_all_resolves_iff reqs_def)
  have x: "?x \<in> set reqs" using p by (simp add: reqs_def)
  with all obtain r where r: "N ?x = Some r"
    by (auto simp: all_cacheable_def list_all_iff split: option.splits)
  let ?ops = "map (\<lambda>x. (x, (the \<circ> N) x)) reqs"
  have "all_GET ?ops" by (auto simp: reqs_def)
  moreover have "distinct (batch_keys ?ops)" using dist by (simp add: comp_def)
  moreover have "(?x, the (N ?x)) \<in> set ?ops" using x by auto
  ultimately have "cache_match q (fold (\<lambda>qr c. put_entry c qr) ?ops c) = Some (the (N ?x))" for c
    using m cache_match_fold_put_in [where ops = ?ops and qr = "(?x, the (N ?x))" and q = q and c = c]
    by simp
  with ok all dist r show ?thesis
    by (simp add: add_all_eq Let_def reqs_def [symmetric] zip_map_self)
qed

text \<open>The cache after a resolved \<open>addAll\<close>: the old entries whose keys no path
  resolves to, then one entry per path with the network's response.\<close>

lemma add_all_cache_eq:
  assumes "fst (add_all N name paths h) = Inr ()"
  shows "cache_of (snd (add_all N name paths h)) name =
           filter (\<lambda>(r, _). match_key r \<notin> set (map (match_key \<circ> new_request (script_url h)) paths))
             (cache_of h name) @
           map (\<lambda>q. (q, the (N q))) (map (new_request (script_url h)) paths)"
proof -
  define reqs where "reqs = map (new_request (script_url h)) paths"
  let ?ops = "map (\<lambda>x. (x, (the \<circ> N) x)) reqs"
  from assms have all: "all_cacheable N reqs" and dist: "distinct (map match_key reqs)"
    by (simp_all add: add_all_resolves_iff reqs_def)
  have "all_GET ?ops" by (auto simp: reqs_def)
  moreover have "distinct (batch_keys ?ops)" using dist by (simp add: comp_def)
  ultimately have "fold (\<lambda>qr c. put_entry c qr) ?ops c =
      filter (\<lambda>(r, _). match_key r \<notin> set (batch_keys ?ops)) c @ ?ops" for c
    by (rule fold_put_entry_eq)
  moreover have "(\<lambda>x. match_key (new_request (script_url h) x)) ` set paths = match_key ` set reqs"
    by (auto simp: reqs_def)
  ultimately show ?thesis using all dist
    by (simp add: add_all_eq Let_def reqs_def [symmetric] zip_map_self comp_def)
qed

text \<open>Only GET requests are answered from a cache.\<close>

lemma match_caches_non_GET:
  "req_method q \<noteq> GET \<Longrightarrow> match_caches q cs = None"
proof (induction cs)
  case Nil
  then show ?case by simp
next
  case (Cons nc cs)
  then have "cache_match q (snd nc) = None"
    by (simp add: cache_match_def query_cache_def request_matches_def)
  with Cons show ?case by (cases nc) simp
qed

text \<open>\<open>caches.match\<close> finds something as soon as one cache of the map does,
  and what it finds comes from a cache of the map.\<close>

lemma match_caches_found:
  "map_of cs n = Some c \<Longrightarrow> cache_match q c \<noteq> None \<Longrightarrow> match_caches q cs \<noteq> None"
  by (induction q cs rule: match_caches.induct) (auto split: if_splits option.splits)

lemma match_caches_from:
  "match_caches q cs = Some r \<Longrightarrow> \<exists>(n, c)\<in>set cs. cache_match q c = Some r"
  by (induction q cs rule: match_caches.induct) (auto split: option.splits)

subsection \<open>Deletion, eviction and the well-formedness of the name map\<close>

lemma caches_delete_same: "map_of (caches (snd (caches_delete n h))) n = None"
  by (simp add: caches_delete_def delete_conv)

lemma caches_delete_other:
  "n' \<noteq> n \<Longrightarrow> map_of (caches (snd (caches_delete n h))) n' = map_of (caches h) n'"
  by (simp add: caches_delete_def delete_conv)

lemma caches_delete_frame [simp]:
  "script_url (snd (caches_delete n h)) = script_url h \<and> net_log (snd (caches_delete n h)) = net_log h"
  by (simp add: caches_delete_def)

end
