(* ===== verification/SW_Handlers.thy ===== *)
theory SW_Handlers
  imports Cache_Storage
begin

text \<open>
  The script src/sw.js, definition by definition: the cache name and the asset
  list (lines 1 to 7), the install listener (lines 10 to 16) with the callback of
  its \<open>.then\<close> (lines 12 to 14), the fetch listener (lines 19 to 25) with the
  callback of its \<open>.then\<close> (lines 21 to 23), and the two registrations with
  \<open>self.addEventListener\<close>.  A listener's body is the promise it hands to
  \<open>e.waitUntil\<close> or \<open>e.respondWith\<close>; the host side of these calls (the
  lifecycle and the dispatch of events) is in \<^theory_text>\<open>SW_Lifecycle\<close>.
  The lemmas give the behaviour of each handler on every branch: what install
  stores and sends, when it rejects and what it leaves behind, and how the fetch
  handler answers a hit, a miss and a non-GET request.
\<close>

definition CACHE_NAME :: string where
  "CACHE_NAME = ''uni-bot-v1''"

definition ASSETS :: "string list" where
  "ASSETS = [''./'', ''./index.html'']"

text \<open>\<open>(cache) => { return cache.addAll(ASSETS); }\<close>\<close>

definition open_then :: "network \<Rightarrow> string \<Rightarrow> ('a host_scheme, unit) promise" where
  "open_then N cache = add_all N cache ASSETS"

text \<open>\<open>caches.open(CACHE_NAME).then(...)\<close>, handed to \<open>e.waitUntil\<close>.\<close>

definition install_handler :: "network \<Rightarrow> ('a host_scheme, unit) promise" where
  "install_handler N = p_then (caches_open CACHE_NAME) (open_then N)"

text \<open>\<open>(response) => { return response || fetch(e.request); }\<close>: a stored
  response is an object, so \<open>||\<close> falls through to \<open>fetch\<close> only on
  \<open>undefined\<close>.\<close>

definition match_then :: "network \<Rightarrow> request \<Rightarrow> response option \<Rightarrow> ('a host_scheme, response) promise" where
  "match_then N q response = (case response of Some r \<Rightarrow> p_resolve r | None \<Rightarrow> net_fetch N q)"

text \<open>\<open>caches.match(e.request).then(...)\<close>, handed to \<open>e.respondWith\<close>.\<close>

definition fetch_handler :: "network \<Rightarrow> request \<Rightarrow> ('a host_scheme, response) promise" where
  "fetch_handler N q = p_then (caches_match q) (match_then N q)"

text \<open>The listeners the script registers, in the order of registration.\<close>

datatype listener =
    InstallListener "network \<Rightarrow> (host, unit) promise"
  | FetchListener "network \<Rightarrow> request \<Rightarrow> (host, response) promise"

definition sw_listeners :: "listener list" where
  "sw_listeners = [InstallListener install_handler, FetchListener fetch_handler]"

subsection \<open>The asset requests\<close>

text \<open>The two requests install sends: the script's directory and its index page.\<close>

lemma asset_requests:
  "map (new_request base) ASSETS =
     [\<lparr>req_url = base_dir base, req_method = GET\<rparr>,
      \<lparr>req_url = base_dir base @ ''index.html'', req_method = GET\<rparr>]"
  by (simp add: ASSETS_def new_request_def resolve_url_def)

lemma asset_keys:
  "map (match_key \<circ> new_request base) ASSETS = [base_dir base, base_dir base @ ''index.html'']"
proof -
  have "CHR ''#'' \<notin> set (base_dir base @ ''index.html'')"
    by (simp add: base_dir_no_hash)
  then show ?thesis
    by (simp add: ASSETS_def new_request_def resolve_url_def match_key_def exclude_fragment_no_hash base_dir_no_hash)
qed

lemma asset_keys_distinct: "distinct (map (match_key \<circ> new_request base) ASSETS)"
  by (simp add: asset_keys)

subsection \<open>Install\<close>

lemma install_handler_eq:
  "install_handler N h = add_all N CACHE_NAME ASSETS (snd (caches_open CACHE_NAME h))"
  by (simp add: install_handler_def open_then_def p_then_def caches_open_def)

lemma caches_open_script_url [simp]: "script_url (snd (caches_open n h)) = script_url h"
  by (simp add: caches_open_def)

lemma caches_open_net_log [simp]: "net_log (snd (caches_open n h)) = net_log h"
  by (simp add: caches_open_def)

lemma cache_of_caches_open [simp]: "cache_of (snd (caches_open n h)) n = cache_of h n"
  by (auto simp: caches_open_def cache_of_def map_add_def split: option.splits)

lemma caches_open_other [simp]:
  "n' \<noteq> n \<Longrightarrow> map_of (caches (snd (caches_open n h))) n' = map_of (caches h) n'"
  by (auto simp: caches_open_def map_add_def split: option.splits)

text \<open>The install handler on its two branches.\<close>

lemma install_handler_cases:
  "install_handler N h =
     (let h0 = snd (caches_open CACHE_NAME h);
          reqs = map (new_request (script_url h)) ASSETS;
          h1 = h0\<lparr>net_log := net_log h @ reqs\<rparr>
      in if all_cacheable N reqs
         then (Inr (), h1\<lparr>caches := AList.update CACHE_NAME
                  (fold (\<lambda>qr c. put_entry c qr) (zip reqs (map (the \<circ> N) reqs)) (cache_of h CACHE_NAME))
                  (caches h0)\<rparr>)
         else (Inl TypeError, h1))"
  by (simp add: install_handler_eq add_all_eq asset_keys_distinct Let_def)

lemmas install_simps [sw_simps] = install_handler_cases asset_requests all_cacheable_def
  cacheable_def response_ok_def

subsection \<open>Fetch\<close>

text \<open>The fetch handler: a hit resolves with the stored response, a miss is a fetch.\<close>

lemma fetch_handler_eq [sw_simps]:
  "fetch_handler N q h =
     (case match_caches q (caches h) of Some r \<Rightarrow> (Inr r, h) | None \<Rightarrow> net_fetch N q h)"
  by (simp add: fetch_handler_def p_then_def caches_match_def match_then_def p_resolve_def
      split: option.splits)

lemmas match_simps [sw_simps] = cache_match_def query_cache_def request_matches_def match_key_def
  exclude_fragment_def

subsection \<open>What the handlers keep and change\<close>

text \<open>Facts the lifecycle theory builds its invariants on.\<close>

lemma install_handler_resolves_iff:
  "fst (install_handler N h) = Inr u \<longleftrightarrow> all_cacheable N (map (new_request (script_url h)) ASSETS)"
  by (simp add: install_handler_cases Let_def)

lemma install_handler_script_url [simp]: "script_url (snd (install_handler N h)) = script_url h"
  by (simp add: install_handler_eq add_all_script_url)

lemma install_handler_caches_assets:
  assumes "fst (install_handler N h) = Inr ()" and "p \<in> set ASSETS"
  shows "\<exists>r. cache_match (new_request (script_url h) p) (cache_of (snd (install_handler N h)) CACHE_NAME) = Some r"
proof -
  have m: "request_matches (new_request (script_url h) p) (new_request (script_url h) p)"
    by (simp add: request_matches_def)
  from assms have "all_cacheable N (map (new_request (script_url h)) ASSETS)"
    by (simp add: install_handler_resolves_iff)
  with assms(2) obtain r where "N (new_request (script_url h) p) = Some r"
    by (auto simp: all_cacheable_def list_all_iff split: option.splits)
  with add_all_stores [of N CACHE_NAME ASSETS "snd (caches_open CACHE_NAME h)" p, OF _ assms(2)] assms(1) m
  show ?thesis by (simp add: install_handler_eq)
qed

lemma fetch_handler_frame:
  "caches (snd (fetch_handler N q h)) = caches h \<and> script_url (snd (fetch_handler N q h)) = script_url h"
  by (simp add: fetch_handler_eq net_fetch_def Let_def split: option.splits)

text \<open>A GET query is answered like any GET request with the same fragment-free URL.\<close>

lemma cache_match_same_key:
  "request_matches q q' \<Longrightarrow> req_method q' = GET \<Longrightarrow> cache_match q c = cache_match q' c"
  by (simp add: cache_match_def query_cache_def request_matches_def)

subsection \<open>Properties of install\<close>

text \<open>
  C1. After a successful install, the cache \<open>uni-bot-v1\<close> holds every asset:
  a request that matches the resolved URL of an asset path (a GET, compared
  without fragment) finds there the response the network gave for that path.
\<close>

theorem install_stores_assets:
  assumes "fst (install_handler N h) = Inr ()"
    and "p \<in> set ASSETS"
    and "request_matches q (new_request (script_url h) p)"
  shows "cache_match q (cache_of (snd (install_handler N h)) CACHE_NAME) = N (new_request (script_url h) p)"
  using add_all_stores [of N CACHE_NAME ASSETS "snd (caches_open CACHE_NAME h)" p q] assms
  by (simp add: install_handler_eq)

theorem install_stores_assets_witness:
  "fst (install_handler (\<lambda>q. Some \<lparr>status = 200, body = req_url q\<rparr>)
      \<lparr>net_log = [], caches = [], script_url = ''/sw.js''\<rparr>) = Inr () \<and>
   ''./index.html'' \<in> set ASSETS \<and>
   request_matches \<lparr>req_url = ''/index.html#top'', req_method = GET\<rparr> (new_request ''/sw.js'' ''./index.html'') \<and>
   cache_match \<lparr>req_url = ''/index.html#top'', req_method = GET\<rparr>
     (cache_of (snd (install_handler (\<lambda>q. Some \<lparr>status = 200, body = req_url q\<rparr>)
        \<lparr>net_log = [], caches = [], script_url = ''/sw.js''\<rparr>)) CACHE_NAME) =
   Some \<lparr>status = 200, body = ''/index.html''\<rparr>"
proof -
  let ?N = "\<lambda>q. Some \<lparr>status = 200, body = req_url q\<rparr>"
  let ?h = "\<lparr>net_log = [], caches = [], script_url = ''/sw.js''\<rparr> :: host"
  let ?q = "\<lparr>req_url = ''/index.html#top'', req_method = GET\<rparr>"
  have ok: "fst (install_handler ?N ?h) = Inr ()"
    by (simp add: sw_simps Let_def)
  have p: "''./index.html'' \<in> set ASSETS" by (simp add: ASSETS_def)
  have m: "request_matches ?q (new_request (script_url ?h) ''./index.html'')"
    by (simp add: sw_simps new_request_def resolve_url_def base_dir_def strip_query_fragment_def)
  have r: "new_request (script_url ?h) ''./index.html'' = \<lparr>req_url = ''/index.html'', req_method = GET\<rparr>"
    by (simp add: new_request_def resolve_url_def base_dir_def strip_query_fragment_def)
  from install_stores_assets [OF ok p m] ok p m r show ?thesis by simp
qed

text \<open>
  C4. If the network fails for an asset, or answers it with a status that
  \<open>addAll\<close> refuses, install rejects with a \<open>TypeError\<close>, so the worker is
  never reported installed; the cache map is then exactly what \<open>caches.open\<close>
  made of it: nothing of the batch is stored.
\<close>

theorem install_failure_rejects:
  assumes "p \<in> set ASSETS"
    and "case N (new_request (script_url h) p) of None \<Rightarrow> True | Some r \<Rightarrow> \<not> cacheable r"
  shows "fst (install_handler N h) = Inl TypeError \<and>
         caches (snd (install_handler N h)) = caches (snd (caches_open CACHE_NAME h))"
proof -
  from assms have "\<not> all_cacheable N (map (new_request (script_url h)) ASSETS)"
    by (auto simp: all_cacheable_def list_all_iff intro!: bexI [of _ p] split: option.splits)
  then show ?thesis by (simp add: install_handler_cases Let_def)
qed

theorem install_failure_rejects_witness:
  "''./'' \<in> set ASSETS \<and>
   (case (\<lambda>q. None) (new_request ''/sw.js'' ''./'') of None \<Rightarrow> True | Some r \<Rightarrow> \<not> cacheable r) \<and>
   fst (install_handler (\<lambda>q. None) \<lparr>net_log = [], caches = [], script_url = ''/sw.js''\<rparr>) = Inl TypeError \<and>
   caches (snd (install_handler (\<lambda>q. None) \<lparr>net_log = [], caches = [], script_url = ''/sw.js''\<rparr>)) =
     [(CACHE_NAME, [])]"
proof -
  let ?h = "\<lparr>net_log = [], caches = [], script_url = ''/sw.js''\<rparr> :: host"
  have p: "''./'' \<in> set ASSETS" by (simp add: ASSETS_def)
  have n: "case (\<lambda>q. None) (new_request (script_url ?h) ''./'') of None \<Rightarrow> True | Some r \<Rightarrow> \<not> cacheable r"
    by simp
  have "fst (install_handler (\<lambda>q. None) ?h) = Inl TypeError \<and>
        caches (snd (install_handler (\<lambda>q. None) ?h)) = caches (snd (caches_open CACHE_NAME ?h))"
    by (rule install_failure_rejects [OF p n])
  with p show ?thesis by (simp add: caches_open_def)
qed

text \<open>
  C6. Install sends exactly one network request per asset, in the order of the
  list, whether it succeeds or fails.
\<close>

theorem install_sends_each_asset_once:
  "net_log (snd (install_handler N h)) = net_log h @ map (new_request (script_url h)) ASSETS"
  by (simp add: install_handler_eq add_all_net_log)

text \<open>
  C7. Install never rejects with an \<open>InvalidStateError\<close>: the two asset paths
  resolve to different URLs, whatever the script URL, so the batch has no
  duplicate.
\<close>

theorem install_never_invalid_state:
  "fst (install_handler N h) \<noteq> Inl InvalidStateError"
  by (simp add: install_handler_cases Let_def)

text \<open>
  C8. Install changes no cache but \<open>uni-bot-v1\<close>: every other name maps to
  what it mapped to before.
\<close>

theorem install_keeps_other_caches:
  "n \<noteq> CACHE_NAME \<Longrightarrow> map_of (caches (snd (install_handler N h))) n = map_of (caches h) n"
  by (simp add: install_handler_eq add_all_other_cache)

theorem install_keeps_other_caches_witness:
  "''uni-bot-v0'' \<noteq> CACHE_NAME \<and>
   map_of (caches (snd (install_handler (\<lambda>q. None)
      \<lparr>net_log = [], caches = [(''uni-bot-v0'', [])], script_url = ''/sw.js''\<rparr>))) ''uni-bot-v0'' = Some []"
proof -
  have n: "''uni-bot-v0'' \<noteq> CACHE_NAME" by (simp add: CACHE_NAME_def)
  let ?h = "\<lparr>net_log = [], caches = [(''uni-bot-v0'', [])], script_url = ''/sw.js''\<rparr> :: host"
  have "map_of (caches (snd (install_handler (\<lambda>q. None) ?h))) ''uni-bot-v0'' = map_of (caches ?h) ''uni-bot-v0''"
    by (rule install_keeps_other_caches [OF n])
  with n show ?thesis by simp
qed

subsection \<open>Properties of fetch\<close>

text \<open>
  C2. A request that a cache answers is answered with the stored response, and
  the host is left exactly as it was: no network request is sent.
\<close>

theorem fetch_hit_no_network:
  "match_caches q (caches h) = Some r \<Longrightarrow> fetch_handler N q h = (Inr r, h)"
  by (simp add: fetch_handler_eq)

theorem fetch_hit_no_network_witness:
  "match_caches \<lparr>req_url = ''/index.html'', req_method = GET\<rparr>
     [(CACHE_NAME, [(\<lparr>req_url = ''/index.html'', req_method = GET\<rparr>, \<lparr>status = 200, body = ''hi''\<rparr>)])] =
     Some \<lparr>status = 200, body = ''hi''\<rparr> \<and>
   fetch_handler (\<lambda>q. None) \<lparr>req_url = ''/index.html'', req_method = GET\<rparr>
     \<lparr>net_log = [], caches = [(CACHE_NAME, [(\<lparr>req_url = ''/index.html'', req_method = GET\<rparr>,
        \<lparr>status = 200, body = ''hi''\<rparr>)])], script_url = ''/sw.js''\<rparr> =
     (Inr \<lparr>status = 200, body = ''hi''\<rparr>,
      \<lparr>net_log = [], caches = [(CACHE_NAME, [(\<lparr>req_url = ''/index.html'', req_method = GET\<rparr>,
        \<lparr>status = 200, body = ''hi''\<rparr>)])], script_url = ''/sw.js''\<rparr>)"
proof -
  let ?q = "\<lparr>req_url = ''/index.html'', req_method = GET\<rparr>"
  let ?cs = "[(CACHE_NAME, [(?q, \<lparr>status = 200, body = ''hi''\<rparr>)])]"
  have m: "match_caches ?q ?cs = Some \<lparr>status = 200, body = ''hi''\<rparr>"
    by (simp add: match_simps)
  from fetch_hit_no_network [where h = "\<lparr>net_log = [], caches = ?cs, script_url = ''/sw.js''\<rparr>"] m
  show ?thesis by simp
qed

text \<open>
  C3. A request that no cache answers causes exactly one network request, for
  that request, and the handler settles with the network's outcome unchanged:
  the response, whatever its status, or the \<open>TypeError\<close> of a network error.
  Nothing is written to a cache.
\<close>

theorem fetch_miss_one_network_call:
  assumes "match_caches q (caches h) = None"
  shows "fst (fetch_handler N q h) = (case N q of None \<Rightarrow> Inl TypeError | Some r \<Rightarrow> Inr r) \<and>
         snd (fetch_handler N q h) = h\<lparr>net_log := net_log h @ [q]\<rparr>"
  using assms by (simp add: fetch_handler_eq net_fetch_def Let_def split: option.splits)

theorem fetch_miss_one_network_call_witness:
  "match_caches \<lparr>req_url = ''/other.js'', req_method = GET\<rparr> [(CACHE_NAME, [])] = None \<and>
   fetch_handler (\<lambda>q. Some \<lparr>status = 404, body = ''''\<rparr>) \<lparr>req_url = ''/other.js'', req_method = GET\<rparr>
     \<lparr>net_log = [], caches = [(CACHE_NAME, [])], script_url = ''/sw.js''\<rparr> =
     (Inr \<lparr>status = 404, body = ''''\<rparr>,
      \<lparr>net_log = [\<lparr>req_url = ''/other.js'', req_method = GET\<rparr>], caches = [(CACHE_NAME, [])],
       script_url = ''/sw.js''\<rparr>)"
proof -
  let ?q = "\<lparr>req_url = ''/other.js'', req_method = GET\<rparr>"
  have m: "match_caches ?q [(CACHE_NAME, [])] = None" by (simp add: match_simps)
  from fetch_miss_one_network_call [where h = "\<lparr>net_log = [], caches = [(CACHE_NAME, [])], script_url = ''/sw.js''\<rparr>"
      and q = ?q and N = "\<lambda>q. Some \<lparr>status = 404, body = ''''\<rparr>"] m
  show ?thesis by (simp add: prod_eq_iff)
qed

text \<open>
  C5. The fetch handler never writes to a cache: responses fetched on a miss are
  not stored, so the caches grow only at install.
\<close>

theorem fetch_handler_keeps_caches: "caches (snd (fetch_handler N q h)) = caches h"
  by (simp add: fetch_handler_eq net_fetch_def Let_def split: option.splits)

text \<open>
  C9. A request that is not a GET is never answered from a cache: it always
  goes to the network, even when a GET for the same URL is stored.
\<close>

theorem fetch_non_GET_network:
  "req_method q \<noteq> GET \<Longrightarrow> fetch_handler N q h = net_fetch N q h"
  by (simp add: fetch_handler_eq match_caches_non_GET)

theorem fetch_non_GET_network_witness:
  "req_method \<lparr>req_url = ''/index.html'', req_method = POST\<rparr> \<noteq> GET \<and>
   fetch_handler (\<lambda>q. None) \<lparr>req_url = ''/index.html'', req_method = POST\<rparr>
     \<lparr>net_log = [], caches = [(CACHE_NAME, [(\<lparr>req_url = ''/index.html'', req_method = GET\<rparr>,
        \<lparr>status = 200, body = ''hi''\<rparr>)])], script_url = ''/sw.js''\<rparr> =
   (Inl TypeError, \<lparr>net_log = [\<lparr>req_url = ''/index.html'', req_method = POST\<rparr>],
      caches = [(CACHE_NAME, [(\<lparr>req_url = ''/index.html'', req_method = GET\<rparr>,
        \<lparr>status = 200, body = ''hi''\<rparr>)])], script_url = ''/sw.js''\<rparr>)"
proof -
  let ?q = "\<lparr>req_url = ''/index.html'', req_method = POST\<rparr>"
  let ?h = "\<lparr>net_log = [], caches = [(CACHE_NAME, [(\<lparr>req_url = ''/index.html'', req_method = GET\<rparr>,
        \<lparr>status = 200, body = ''hi''\<rparr>)])], script_url = ''/sw.js''\<rparr> :: host"
  have m: "req_method ?q \<noteq> GET" by simp
  have "fetch_handler (\<lambda>q. None) ?q ?h = net_fetch (\<lambda>q. None) ?q ?h"
    by (rule fetch_non_GET_network [OF m])
  with m show ?thesis by (simp add: net_fetch_def)
qed

text \<open>
  C24. Install grows the cache by at most the number of assets: after a resolved
  install the cache \<open>uni-bot-v1\<close> holds the entries it had for other URLs and
  exactly one entry per asset, so reinstalling never makes it grow without
  bound, and on an empty cache it holds exactly the two assets.
\<close>

theorem install_cache_size:
  assumes "fst (install_handler N h) = Inr ()"
  shows "length (cache_of (snd (install_handler N h)) CACHE_NAME) =
           length (filter (\<lambda>(r, _). match_key r \<notin> set (map (match_key \<circ> new_request (script_url h)) ASSETS))
             (cache_of h CACHE_NAME)) + length ASSETS \<and>
         length (cache_of (snd (install_handler N h)) CACHE_NAME) \<le> length (cache_of h CACHE_NAME) + length ASSETS"
proof -
  have ok: "fst (add_all N CACHE_NAME ASSETS (snd (caches_open CACHE_NAME h))) = Inr ()"
    using assms by (simp add: install_handler_eq)
  have "length (cache_of (snd (install_handler N h)) CACHE_NAME) =
          length (filter (\<lambda>(r, _). match_key r \<notin> set (map (match_key \<circ> new_request (script_url h)) ASSETS))
            (cache_of h CACHE_NAME)) + length ASSETS"
    using add_all_cache_eq [OF ok] by (simp add: install_handler_eq)
  moreover have "length (filter (\<lambda>(r, _). match_key r \<notin> set (map (match_key \<circ> new_request (script_url h)) ASSETS))
            (cache_of h CACHE_NAME)) \<le> length (cache_of h CACHE_NAME)"
    by (rule length_filter_le)
  ultimately show ?thesis by simp
qed

theorem install_cache_size_witness:
  "fst (install_handler (\<lambda>q. Some \<lparr>status = 200, body = req_url q\<rparr>)
      \<lparr>net_log = [], caches = [], script_url = ''/sw.js''\<rparr>) = Inr () \<and>
   length (cache_of (snd (install_handler (\<lambda>q. Some \<lparr>status = 200, body = req_url q\<rparr>)
      \<lparr>net_log = [], caches = [], script_url = ''/sw.js''\<rparr>)) CACHE_NAME) = 2"
proof -
  let ?N = "\<lambda>q. Some \<lparr>status = 200, body = req_url q\<rparr>"
  let ?h = "\<lparr>net_log = [], caches = [], script_url = ''/sw.js''\<rparr> :: host"
  have ok: "fst (install_handler ?N ?h) = Inr ()" by (simp add: sw_simps Let_def)
  from install_cache_size [OF ok] ok show ?thesis by (simp add: cache_of_def ASSETS_def)
qed

end
