(* ===== verification/SW_Lifecycle.thy ===== *)
theory SW_Lifecycle
  imports SW_Handlers
begin

text \<open>
  The host side of src/sw.js: how the browser runs the registered listeners.
  An install event is dispatched once, to the install listeners, and the worker
  becomes installed when the promise handed to \<open>e.waitUntil\<close> resolves, and
  redundant when it rejects; an installed worker is activated (the script has no
  activate listener); only an activated worker receives fetch events, and the
  first fetch listener's \<open>e.respondWith\<close> promise answers the request (with no
  fetch listener the browser sends the request itself).  Other scripts of the
  origin may write caches under other names at any time.  Several waitUntil
  promises are run one after the other here, where the browser runs them side by
  side; the script registers one install listener, for which both agree.  The
  states \<open>installing\<close> and \<open>activating\<close> last as long as one handler and are
  folded into its step.

  The system state is the host, the worker's state, and the log of the answers
  the worker gave.  Reachable states start from any host, since caches persist
  from earlier versions of the worker, and the invariants show that an activated
  worker has every asset cached, answers every asset request without the network,
  and has never failed an asset request.
\<close>

datatype worker_state = Parsed | Installed | Activated | Redundant

record sw_sys =
  host_of :: host
  wstate :: worker_state
  served :: "(request \<times> (js_error + response)) list"

fun dispatch_install :: "network \<Rightarrow> listener list \<Rightarrow> (host, unit) promise" where
  "dispatch_install N [] = p_resolve ()"
| "dispatch_install N (InstallListener f # ls) = p_then (f N) (\<lambda>_. dispatch_install N ls)"
| "dispatch_install N (FetchListener g # ls) = dispatch_install N ls"

fun dispatch_fetch :: "network \<Rightarrow> request \<Rightarrow> listener list \<Rightarrow> (host, response) promise" where
  "dispatch_fetch N q [] = net_fetch N q"
| "dispatch_fetch N q (FetchListener f # ls) = f N q"
| "dispatch_fetch N q (InstallListener g # ls) = dispatch_fetch N q ls"

text \<open>One step of the system, for the registered listeners \<open>ls\<close> and the cache
  name \<open>own\<close> that only the worker writes.  The network \<open>N\<close> of each step is
  arbitrary: it may change between steps.\<close>

inductive worker_step :: "listener list \<Rightarrow> string \<Rightarrow> sw_sys \<Rightarrow> sw_sys \<Rightarrow> bool"
  for ls :: "listener list" and own :: string where
  install_ok: "wstate s = Parsed \<Longrightarrow> dispatch_install N ls (host_of s) = (Inr (), h') \<Longrightarrow>
     worker_step ls own s (s\<lparr>host_of := h', wstate := Installed\<rparr>)"
| install_fail: "wstate s = Parsed \<Longrightarrow> dispatch_install N ls (host_of s) = (Inl e, h') \<Longrightarrow>
     worker_step ls own s (s\<lparr>host_of := h', wstate := Redundant\<rparr>)"
| activate: "wstate s = Installed \<Longrightarrow> worker_step ls own s (s\<lparr>wstate := Activated\<rparr>)"
| fetch: "wstate s = Activated \<Longrightarrow> dispatch_fetch N q ls (host_of s) = (r, h') \<Longrightarrow>
     worker_step ls own s (s\<lparr>host_of := h', served := served s @ [(q, r)]\<rparr>)"
| other_write: "n \<noteq> own \<Longrightarrow>
     worker_step ls own s (s\<lparr>host_of := (host_of s)\<lparr>caches := AList.update n c (caches (host_of s))\<rparr>\<rparr>)"

inductive reach :: "listener list \<Rightarrow> string \<Rightarrow> sw_sys \<Rightarrow> bool"
  for ls :: "listener list" and own :: string where
  start: "wstate s = Parsed \<Longrightarrow> served s = [] \<Longrightarrow> reach ls own s"
| step: "reach ls own s \<Longrightarrow> worker_step ls own s t \<Longrightarrow> reach ls own t"

text \<open>The worker of src/sw.js: its listeners, and its cache as the protected name.\<close>

abbreviation sw_step :: "sw_sys \<Rightarrow> sw_sys \<Rightarrow> bool" where
  "sw_step \<equiv> worker_step sw_listeners CACHE_NAME"

abbreviation sw_reach :: "sw_sys \<Rightarrow> bool" where
  "sw_reach \<equiv> reach sw_listeners CACHE_NAME"

text \<open>The invariants.\<close>

definition assets_cached :: "sw_sys \<Rightarrow> bool" where
  "assets_cached s \<longleftrightarrow> (wstate s = Installed \<or> wstate s = Activated \<longrightarrow>
     (\<forall>p\<in>set ASSETS. \<exists>r. cache_match (new_request (script_url (host_of s)) p)
                            (cache_of (host_of s) CACHE_NAME) = Some r))"

text \<open>The host's cache \<open>uni-bot-v1\<close> answers the request of every asset path.\<close>

definition assets_in :: "host \<Rightarrow> bool" where
  "assets_in h \<longleftrightarrow>
     (\<forall>p\<in>set ASSETS. \<exists>r. cache_match (new_request (script_url h) p) (cache_of h CACHE_NAME) = Some r)"

definition asset_request :: "url \<Rightarrow> request \<Rightarrow> bool" where
  "asset_request base q \<longleftrightarrow> (\<exists>p\<in>set ASSETS. request_matches q (new_request base p))"

definition served_assets_ok :: "sw_sys \<Rightarrow> bool" where
  "served_assets_ok s \<longleftrightarrow>
     (\<forall>(q, r)\<in>set (served s). asset_request (script_url (host_of s)) q \<longrightarrow> (\<exists>resp. r = Inr resp))"

text \<open>A concrete run, used by the witnesses: the worker at \<open>/sw.js\<close>, installed while
  the network answers every request with status 200, then activated.\<close>

abbreviation demo_net :: network where
  "demo_net \<equiv> \<lambda>q. Some \<lparr>status = 200, body = req_url q\<rparr>"

abbreviation demo_host :: host where
  "demo_host \<equiv> \<lparr>net_log = [], caches = [], script_url = ''/sw.js''\<rparr>"

abbreviation demo_parsed :: sw_sys where
  "demo_parsed \<equiv> \<lparr>host_of = demo_host, wstate = Parsed, served = []\<rparr>"

abbreviation demo_activated :: sw_sys where
  "demo_activated \<equiv> \<lparr>host_of = snd (install_handler demo_net demo_host), wstate = Activated, served = []\<rparr>"

abbreviation demo_index :: request where
  "demo_index \<equiv> \<lparr>req_url = ''/index.html'', req_method = GET\<rparr>"

abbreviation demo_fetched :: sw_sys where
  "demo_fetched \<equiv> demo_activated\<lparr>
     host_of := snd (fetch_handler demo_net demo_index (host_of demo_activated)),
     served := [(demo_index, fst (fetch_handler demo_net demo_index (host_of demo_activated)))]\<rparr>"

subsection \<open>Dispatch to the script's listeners\<close>

lemma dispatch_install_sw [simp]: "dispatch_install N sw_listeners = install_handler N"
  by (simp add: sw_listeners_def p_then_resolve_right)

lemma dispatch_fetch_sw [simp]: "dispatch_fetch N q sw_listeners = fetch_handler N q"
  by (simp add: sw_listeners_def)

subsection \<open>What one step keeps\<close>

text \<open>The host state a fetch step leaves behind is the fetch handler's.\<close>

lemma fetch_step_host:
  "dispatch_fetch N q sw_listeners h = (r, h') \<Longrightarrow> h' = snd (fetch_handler N q h)"
  by simp

lemma cache_of_other_write:
  "n \<noteq> CACHE_NAME \<Longrightarrow> cache_of (h\<lparr>caches := AList.update n c (caches h)\<rparr>) CACHE_NAME = cache_of h CACHE_NAME"
  by (simp add: cache_of_def)

text \<open>Every step keeps the assets cached once the worker is installed.\<close>

lemma sw_step_assets_cached:
  "sw_step s t \<Longrightarrow> assets_cached s \<Longrightarrow> assets_cached t"
proof (induction rule: worker_step.induct)
  case (install_ok s N h')
  then have eq: "install_handler N (host_of s) = (Inr (), h')" by simp
  then have "fst (install_handler N (host_of s)) = Inr ()" and "snd (install_handler N (host_of s)) = h'"
    by simp_all
  moreover have "script_url h' = script_url (host_of s)"
    using eq install_handler_script_url [of N "host_of s"] by simp
  ultimately show ?case using install_handler_caches_assets [of N "host_of s"]
    by (simp add: assets_cached_def)
next
  case (fetch s N q r h')
  then have "h' = snd (fetch_handler N q (host_of s))" by (simp add: fetch_step_host)
  with fetch.prems fetch_handler_frame [of N q "host_of s"] show ?case
    by (simp add: assets_cached_def cache_of_def)
next
  case (other_write n s c)
  then show ?case by (simp add: assets_cached_def cache_of_other_write)
qed (simp_all add: assets_cached_def)

lemma reach_assets_cached_inv: "sw_reach s \<Longrightarrow> assets_cached s"
  by (induction rule: reach.induct) (auto simp: assets_cached_def dest: sw_step_assets_cached)

text \<open>With the assets cached, an asset request is a hit in \<open>caches.match\<close>.\<close>

lemma assets_in_hit:
  assumes "assets_in h" and "asset_request (script_url h) q"
  shows "\<exists>r. match_caches q (caches h) = Some r"
proof -
  from assms(2) obtain p where p: "p \<in> set ASSETS" and m: "request_matches q (new_request (script_url h) p)"
    by (auto simp: asset_request_def)
  with assms(1) obtain r where r: "cache_match (new_request (script_url h) p) (cache_of h CACHE_NAME) = Some r"
    by (auto simp: assets_in_def)
  then obtain c where c: "map_of (caches h) CACHE_NAME = Some c"
    by (cases "map_of (caches h) CACHE_NAME") (auto simp: cache_of_def cache_match_def query_cache_def)
  with r have "cache_match (new_request (script_url h) p) c = Some r" by (simp add: cache_of_def)
  with m have "cache_match q c \<noteq> None" by (simp add: cache_match_same_key)
  with c have "match_caches q (caches h) \<noteq> None" by (rule match_caches_found)
  then show ?thesis by auto
qed

lemma assets_cached_hit:
  assumes "assets_cached s" and "wstate s = Activated" and "asset_request (script_url (host_of s)) q"
  shows "\<exists>r. match_caches q (caches (host_of s)) = Some r"
  using assms by (intro assets_in_hit) (simp_all add: assets_cached_def assets_in_def)

lemma assets_in_cong:
  "caches h' = caches h \<Longrightarrow> script_url h' = script_url h \<Longrightarrow> assets_in h' = assets_in h"
  by (simp add: assets_in_def cache_of_def)

lemma fetch_keeps_assets_in: "assets_in h \<Longrightarrow> assets_in (snd (fetch_handler N q h))"
  using fetch_handler_frame [of N q h] assets_in_cong by blast

text \<open>With the assets in its cache, the fetch listener answers every asset
  request with a response.\<close>

lemma fetch_asset_answer:
  assumes "assets_in h" and "asset_request (script_url h) q"
    and "dispatch_fetch N q sw_listeners h = (r, h')"
  shows "(\<exists>resp. r = Inr resp) \<and> assets_in h' \<and> script_url h' = script_url h"
proof -
  from assets_in_hit [OF assms(1,2)] obtain x where "match_caches q (caches h) = Some x" by blast
  with assms(3) have "\<exists>resp. r = Inr resp" by (auto simp: fetch_handler_eq)
  moreover have "h' = snd (fetch_handler N q h)" using assms(3) by simp
  ultimately show ?thesis
    using fetch_keeps_assets_in [OF assms(1), of N q] fetch_handler_frame [of N q h] by simp
qed

lemma sw_step_served_assets_ok:
  "sw_step s t \<Longrightarrow> assets_cached s \<Longrightarrow> served_assets_ok s \<Longrightarrow> served_assets_ok t"
proof (induction rule: worker_step.induct)
  case (install_ok s N h')
  then show ?case using install_handler_script_url [of N "host_of s"] by (simp add: served_assets_ok_def)
next
  case (install_fail s N e h')
  then show ?case using install_handler_script_url [of N "host_of s"] by (simp add: served_assets_ok_def)
next
  case (fetch s N q r h')
  have a: "assets_in (host_of s)" using fetch.prems(1) fetch.hyps(1) by (simp add: assets_cached_def assets_in_def)
  have "\<exists>resp. r = Inr resp" if "asset_request (script_url (host_of s)) q"
    using fetch_asset_answer [OF a that fetch.hyps(2)] by blast
  with fetch.prems(2) fetch_handler_frame [of N q "host_of s"] fetch.hyps(2) show ?case
    by (auto simp: served_assets_ok_def)
next
  case (other_write n s c)
  then show ?case by (simp add: served_assets_ok_def)
qed (simp add: served_assets_ok_def)

lemma reach_served_assets_ok_inv: "sw_reach s \<Longrightarrow> served_assets_ok s"
proof (induction rule: reach.induct)
  case (start s)
  then show ?case by (simp add: served_assets_ok_def)
next
  case (step s t)
  then show ?case using reach_assets_cached_inv sw_step_served_assets_ok by blast
qed

subsection \<open>The demo run is a run\<close>

lemma demo_install_resolves: "fst (install_handler demo_net demo_host) = Inr ()"
  by (simp add: sw_simps Let_def)

lemma demo_parsed_reach: "sw_reach demo_parsed"
  by (rule reach.start) simp_all

lemma demo_activated_reach: "sw_reach demo_activated"
proof -
  have i: "sw_step demo_parsed (demo_parsed\<lparr>host_of := snd (install_handler demo_net demo_host), wstate := Installed\<rparr>)"
    by (rule worker_step.install_ok [where N = demo_net]) (simp_all add: prod_eq_iff demo_install_resolves)
  have a: "sw_step (demo_parsed\<lparr>host_of := snd (install_handler demo_net demo_host), wstate := Installed\<rparr>)
             demo_activated"
    using worker_step.activate [of "demo_parsed\<lparr>host_of := snd (install_handler demo_net demo_host), wstate := Installed\<rparr>"]
    by simp
  from reach.step [OF reach.step [OF demo_parsed_reach i] a] show ?thesis .
qed

lemma demo_index_asset: "asset_request ''/sw.js'' demo_index"
proof -
  have "request_matches demo_index (new_request ''/sw.js'' ''./index.html'')"
    by (simp add: match_simps new_request_def resolve_url_def base_dir_def strip_query_fragment_def)
  then show ?thesis by (auto simp: asset_request_def ASSETS_def)
qed

lemma demo_fetched_reach: "sw_reach demo_fetched"
proof -
  have "sw_step demo_activated demo_fetched"
    using worker_step.fetch [where N = demo_net and q = demo_index and s = demo_activated
        and r = "fst (fetch_handler demo_net demo_index (host_of demo_activated))"
        and h' = "snd (fetch_handler demo_net demo_index (host_of demo_activated))"]
    by simp
  with demo_activated_reach show ?thesis by (rule reach.step)
qed

subsection \<open>Lifecycle properties\<close>

text \<open>
  C10. In every reachable state of the worker where it is activated, the cache
  \<open>uni-bot-v1\<close> answers the request of every asset path, however the network
  behaved and whatever other scripts wrote to other caches.
\<close>

theorem reach_assets_cached:
  assumes "sw_reach s" and "wstate s = Activated" and "p \<in> set ASSETS"
  shows "\<exists>r. cache_match (new_request (script_url (host_of s)) p) (cache_of (host_of s) CACHE_NAME) = Some r"
  using reach_assets_cached_inv [OF assms(1)] assms(2,3) by (simp add: assets_cached_def)

theorem reach_assets_cached_witness:
  "sw_reach demo_activated \<and> wstate demo_activated = Activated \<and> ''./'' \<in> set ASSETS \<and>
   (\<exists>r. cache_match (new_request ''/sw.js'' ''./'') (cache_of (host_of demo_activated) CACHE_NAME) = Some r)"
proof -
  have p: "''./'' \<in> set ASSETS" by (simp add: ASSETS_def)
  from reach_assets_cached [OF demo_activated_reach _ p] demo_activated_reach p
  show ?thesis by simp
qed

text \<open>
  C11. An activated worker in a reachable state answers every request for an
  asset from the caches: the answer is the same for every network, offline
  included, and the host is left unchanged, so no network request is sent.
\<close>

theorem activated_serves_assets_offline:
  assumes "sw_reach s" and "wstate s = Activated" and "asset_request (script_url (host_of s)) q"
  shows "\<exists>r. \<forall>N. dispatch_fetch N q sw_listeners (host_of s) = (Inr r, host_of s)"
proof -
  from assets_cached_hit [OF reach_assets_cached_inv [OF assms(1)] assms(2,3)]
  obtain r where "match_caches q (caches (host_of s)) = Some r" by blast
  then show ?thesis by (auto simp: fetch_handler_eq)
qed

theorem activated_serves_assets_offline_witness:
  "sw_reach demo_activated \<and> wstate demo_activated = Activated \<and>
   asset_request (script_url (host_of demo_activated)) demo_index \<and>
   (\<exists>r. \<forall>N. dispatch_fetch N demo_index sw_listeners (host_of demo_activated) = (Inr r, host_of demo_activated))"
proof -
  have u: "script_url (host_of demo_activated) = ''/sw.js''" by simp
  have q: "asset_request (script_url (host_of demo_activated)) demo_index"
    using demo_index_asset by (simp only: u)
  from activated_serves_assets_offline [OF demo_activated_reach _ q] demo_activated_reach q
  show ?thesis by simp
qed

text \<open>
  C12. In every reachable state, every answer the worker gave to a request for
  an asset was a response: no asset request has ever failed, whatever the
  network did while the worker was active.
\<close>

theorem served_assets_never_fail:
  assumes "sw_reach s" and "(q, res) \<in> set (served s)" and "asset_request (script_url (host_of s)) q"
  shows "\<exists>resp. res = Inr resp"
  using reach_served_assets_ok_inv [OF assms(1)] assms(2,3) by (auto simp: served_assets_ok_def)

theorem served_assets_never_fail_witness:
  "sw_reach demo_fetched \<and>
   (demo_index, fst (fetch_handler demo_net demo_index (host_of demo_activated))) \<in> set (served demo_fetched) \<and>
   asset_request (script_url (host_of demo_fetched)) demo_index \<and>
   (\<exists>resp. fst (fetch_handler demo_net demo_index (host_of demo_activated)) = Inr resp)"
proof -
  have u: "script_url (host_of demo_fetched) = ''/sw.js''"
    using fetch_handler_frame [of demo_net demo_index "host_of demo_activated"] by simp
  have q: "asset_request (script_url (host_of demo_fetched)) demo_index"
    using demo_index_asset by (simp only: u)
  have m: "(demo_index, fst (fetch_handler demo_net demo_index (host_of demo_activated))) \<in> set (served demo_fetched)"
    by simp
  from served_assets_never_fail [OF demo_fetched_reach m q] demo_fetched_reach m q
  show ?thesis by blast
qed

text \<open>
  C13. From any starting state, a network that serves every asset with a
  cacheable response lets the worker install and become activated: the
  activated state is reachable, with the host that install leaves behind.
\<close>

theorem activation_reachable:
  fixes s :: sw_sys
  assumes "wstate s = Parsed" and "served s = []"
    and "all_cacheable N (map (new_request (script_url (host_of s))) ASSETS)"
  shows "\<exists>t. sw_reach t \<and> wstate t = Activated \<and> host_of t = snd (install_handler N (host_of s))"
proof -
  let ?s1 = "s\<lparr>host_of := snd (install_handler N (host_of s)), wstate := Installed\<rparr>"
  have r0: "sw_reach s" using assms(1,2) by (rule reach.start)
  have "install_handler N (host_of s) = (Inr (), snd (install_handler N (host_of s)))"
    using assms(3) by (simp add: prod_eq_iff install_handler_resolves_iff)
  then have "sw_step s ?s1" using assms(1) by (intro worker_step.install_ok) simp_all
  with r0 have r1: "sw_reach ?s1" by (rule reach.step)
  have "sw_step ?s1 (?s1\<lparr>wstate := Activated\<rparr>)" by (rule worker_step.activate) simp
  with r1 have "sw_reach (?s1\<lparr>wstate := Activated\<rparr>)" by (rule reach.step)
  then show ?thesis by force
qed

theorem activation_reachable_witness:
  "wstate demo_parsed = Parsed \<and> served demo_parsed = [] \<and>
   all_cacheable demo_net (map (new_request ''/sw.js'') ASSETS) \<and>
   (\<exists>t. sw_reach t \<and> wstate t = Activated \<and> host_of t = snd (install_handler demo_net demo_host))"
proof -
  have c: "all_cacheable demo_net (map (new_request (script_url (host_of demo_parsed))) ASSETS)"
    by (simp add: sw_simps)
  from activation_reachable [of demo_parsed demo_net] c show ?thesis by simp
qed

end
