(* ===== verification/SW_Storage_Loss.thy ===== *)
theory SW_Storage_Loss
  imports SW_Lifecycle
begin

text \<open>
  The worker's cache is not the worker's alone: every script of the origin may
  call \<open>caches.delete(name)\<close> on any name, \<open>uni-bot-v1\<close> included, and the
  browser may evict the origin's storage under pressure.  This theory extends the
  system of \<^theory_text>\<open>SW_Lifecycle\<close> with these two environment steps.  The theorems
  show what survives: while the worker's cache exists it holds every asset; but once it is gone after install it never comes
  back while this worker runs, since the fetch listener of src/sw.js
  (lines 19--25) never writes a cache and the install listener (lines 10--16)
  runs once per worker, so offline requests for the assets fail from then on.
\<close>

inductive loss_step :: "listener list \<Rightarrow> string \<Rightarrow> sw_sys \<Rightarrow> sw_sys \<Rightarrow> bool"
  for ls :: "listener list" and own :: string where
  worker: "worker_step ls own s t \<Longrightarrow> loss_step ls own s t"
| delete: "caches_delete n (host_of s) = (b, h') \<Longrightarrow> loss_step ls own s (s\<lparr>host_of := h'\<rparr>)"
| evict: "loss_step ls own s (s\<lparr>host_of := evict_storage (host_of s)\<rparr>)"

inductive loss_reach :: "listener list \<Rightarrow> string \<Rightarrow> sw_sys \<Rightarrow> bool"
  for ls :: "listener list" and own :: string where
  start: "wstate s = Parsed \<Longrightarrow> served s = [] \<Longrightarrow> loss_reach ls own s"
| step: "loss_reach ls own s \<Longrightarrow> loss_step ls own s t \<Longrightarrow> loss_reach ls own t"

abbreviation sw_loss_step :: "sw_sys \<Rightarrow> sw_sys \<Rightarrow> bool" where
  "sw_loss_step \<equiv> loss_step sw_listeners CACHE_NAME"

abbreviation sw_loss_reach :: "sw_sys \<Rightarrow> bool" where
  "sw_loss_reach \<equiv> loss_reach sw_listeners CACHE_NAME"

text \<open>The worker has run its install and its cache is no longer in the map.\<close>

definition cache_gone :: "sw_sys \<Rightarrow> bool" where
  "cache_gone s \<longleftrightarrow> wstate s \<noteq> Parsed \<and> map_of (caches (host_of s)) CACHE_NAME = None"

definition cached_or_gone :: "sw_sys \<Rightarrow> bool" where
  "cached_or_gone s \<longleftrightarrow> assets_cached s \<or> cache_gone s"

text \<open>The demo run of \<^theory_text>\<open>SW_Lifecycle\<close>, after the browser evicted the storage.\<close>

abbreviation demo_evicted :: sw_sys where
  "demo_evicted \<equiv> demo_activated\<lparr>host_of := evict_storage (host_of demo_activated)\<rparr>"

abbreviation demo_offline :: network where
  "demo_offline \<equiv> \<lambda>q. None"

abbreviation demo_evicted_fetched :: sw_sys where
  "demo_evicted_fetched \<equiv> demo_evicted\<lparr>
     host_of := snd (fetch_handler demo_offline demo_index (host_of demo_evicted)),
     served := [(demo_index, fst (fetch_handler demo_offline demo_index (host_of demo_evicted)))]\<rparr>"

subsection \<open>Steps of the extended system\<close>

lemma reach_loss_reach: "reach ls own s \<Longrightarrow> loss_reach ls own s"
  by (induction rule: reach.induct) (auto intro: loss_reach.intros loss_step.worker)

text \<open>Deletion and eviction remove caches and change nothing else: the worker's
  cache is either gone or as it was.\<close>

lemma loss_env_own:
  assumes "t = s\<lparr>host_of := h'\<rparr>"
    and "h' = snd (caches_delete n (host_of s)) \<or> h' = evict_storage (host_of s)"
  shows "wstate t = wstate s \<and> served t = served s \<and> script_url (host_of t) = script_url (host_of s) \<and>
         (map_of (caches (host_of t)) own = None \<or>
          map_of (caches (host_of t)) own = map_of (caches (host_of s)) own)"
  using assms caches_delete_same [of n "host_of s"] caches_delete_other [of own n "host_of s"]
  by (cases "own = n") (auto simp: evict_storage_def)

lemma cache_gone_step: "sw_loss_step s t \<Longrightarrow> cache_gone s \<Longrightarrow> cache_gone t"
proof (induction rule: loss_step.induct)
  case (worker s t)
  then show ?case
  proof (induction rule: worker_step.induct)
    case (fetch s N q r h')
    then show ?case using fetch_handler_frame [of N q "host_of s"] by (simp add: cache_gone_def)
  next
    case (other_write n s c)
    then show ?case by (simp add: cache_gone_def)
  qed (simp_all add: cache_gone_def)
next
  case (delete n s b h')
  with loss_env_own [where t = "s\<lparr>host_of := h'\<rparr>" and s = s and h' = h' and n = n and own = CACHE_NAME] show ?case
    by (auto simp: cache_gone_def)
next
  case (evict s)
  then show ?case by (simp add: cache_gone_def evict_storage_def)
qed

lemma cached_or_gone_env:
  assumes "t = s\<lparr>host_of := h'\<rparr>"
    and "h' = snd (caches_delete n (host_of s)) \<or> h' = evict_storage (host_of s)"
    and "assets_cached s"
  shows "cached_or_gone t"
proof (cases "wstate s = Parsed")
  case True
  with loss_env_own [OF assms(1,2), of CACHE_NAME] show ?thesis
    by (simp add: cached_or_gone_def assets_cached_def)
next
  case False
  with loss_env_own [OF assms(1,2), of CACHE_NAME] assms(3) show ?thesis
    by (auto simp: cached_or_gone_def cache_gone_def assets_cached_def cache_of_def)
qed

lemma cached_or_gone_step:
  assumes "sw_loss_step s t" and "cached_or_gone s"
  shows "cached_or_gone t"
proof (cases "cache_gone s")
  case True
  with cache_gone_step [OF assms(1)] show ?thesis by (simp add: cached_or_gone_def)
next
  case False
  with assms(2) have c: "assets_cached s" by (simp add: cached_or_gone_def)
  from assms(1) c show ?thesis
  proof (induction rule: loss_step.induct)
    case (worker s t)
    then show ?case using sw_step_assets_cached by (auto simp: cached_or_gone_def)
  next
    case (delete n s b h')
    then show ?case by (intro cached_or_gone_env [where s = s and h' = h' and n = n]) (simp_all add: prod_eq_iff)
  next
    case (evict s)
    then show ?case by (intro cached_or_gone_env [where s = s and n = undefined]) (simp_all, blast)
  qed
qed

lemma loss_reach_cached_or_gone: "sw_loss_reach s \<Longrightarrow> cached_or_gone s"
proof (induction rule: loss_reach.induct)
  case (start s)
  then show ?case by (simp add: cached_or_gone_def assets_cached_def)
next
  case (step s t)
  from cached_or_gone_step [OF step.hyps(2) step.IH] show ?case .
qed

subsection \<open>The demo run with eviction\<close>

lemma demo_evicted_fetch: "sw_loss_step demo_evicted demo_evicted_fetched"
  using loss_step.worker [OF worker_step.fetch [where N = demo_offline and q = demo_index and s = demo_evicted
      and r = "fst (fetch_handler demo_offline demo_index (host_of demo_evicted))"
      and h' = "snd (fetch_handler demo_offline demo_index (host_of demo_evicted))"]]
  by simp

lemma demo_evicted_gone: "cache_gone demo_evicted"
  by (simp add: cache_gone_def evict_storage_def)

subsection \<open>Properties under deletion and eviction\<close>

text \<open>
  C22. Once the worker has run its install and its cache \<open>uni-bot-v1\<close> is gone
  (deleted by a page script or evicted), no later step brings it back: the fetch
  listener never writes a cache and the install listener does not run again, so
  the worker's cache stays absent, and empty to \<open>caches.match\<close>, for the rest
  of the worker's life.
\<close>

theorem cache_gone_for_good:
  assumes "sw_loss_step\<^sup>*\<^sup>* s t" and "cache_gone s"
  shows "cache_gone t \<and> cache_of (host_of t) CACHE_NAME = []"
proof -
  from assms have "cache_gone t" by (induction rule: rtranclp_induct) (auto intro: cache_gone_step)
  then show ?thesis by (simp add: cache_gone_def cache_of_def)
qed

theorem cache_gone_for_good_witness:
  "sw_loss_step\<^sup>*\<^sup>* demo_evicted demo_evicted_fetched \<and> cache_gone demo_evicted \<and>
   cache_gone demo_evicted_fetched \<and> cache_of (host_of demo_evicted_fetched) CACHE_NAME = []"
proof -
  have r: "sw_loss_step\<^sup>*\<^sup>* demo_evicted demo_evicted_fetched" using demo_evicted_fetch by simp
  from cache_gone_for_good [OF r demo_evicted_gone] r demo_evicted_gone show ?thesis by simp
qed

text \<open>
  C23. Deletion and eviction weaken the offline guarantee of C10 exactly to this:
  in every reachable state of an activated worker, when its cache is in the
  map, it answers the request of every asset path.
\<close>

theorem cache_present_holds_assets:
  assumes "sw_loss_reach s" and "wstate s = Activated"
    and "map_of (caches (host_of s)) CACHE_NAME \<noteq> None" and "p \<in> set ASSETS"
  shows "\<exists>r. cache_match (new_request (script_url (host_of s)) p) (cache_of (host_of s) CACHE_NAME) = Some r"
  using loss_reach_cached_or_gone [OF assms(1)] assms(2-4)
  by (auto simp: cached_or_gone_def cache_gone_def assets_cached_def)

theorem cache_present_holds_assets_witness:
  "sw_loss_reach demo_activated \<and> wstate demo_activated = Activated \<and>
   map_of (caches (host_of demo_activated)) CACHE_NAME \<noteq> None \<and> ''./index.html'' \<in> set ASSETS \<and>
   (\<exists>r. cache_match (new_request ''/sw.js'' ''./index.html'') (cache_of (host_of demo_activated) CACHE_NAME) = Some r)"
proof -
  have r: "sw_loss_reach demo_activated" by (rule reach_loss_reach [OF demo_activated_reach])
  have m: "map_of (caches (host_of demo_activated)) CACHE_NAME \<noteq> None"
    by (simp add: sw_simps Let_def)
  have p: "''./index.html'' \<in> set ASSETS" by (simp add: ASSETS_def)
  from cache_present_holds_assets [OF r _ m p] r m p show ?thesis by simp
qed

end
