(* ===== verification/SW_Update.thy ===== *)
theory SW_Update
  imports SW_Lifecycle
begin

text \<open>
  The update of a registration.  When the browser finds a new version of the
  script, the active worker of the previous version keeps control of its pages
  and answers their fetch events while the new worker installs; an installed new
  worker waits until the active worker has no page left (the script calls
  neither \<open>skipWaiting\<close> nor \<open>clients.claim\<close>), then it is activated, the old
  worker becomes redundant, and the new one answers from then on; a new worker
  whose install rejects is redundant and the old one stays.  The new worker is
  src/sw.js; the old one is an earlier deployment with the same fetch listener
  (lines 19--25), so both answer with \<open>fetch_handler\<close>, and both use the cache
  \<open>uni-bot-v1\<close>, since \<open>CACHE_NAME\<close> (line 1) is the same.  The log of
  answers records which version gave each.

  The theorem shows that an update never breaks offline serving, even when the
  new install fails (\<open>addAll\<close> stores nothing then).  Because the cache
  name is shared, the old worker reads the cache the new install writes; the
  demo run \<open>upd_waiting\<close> shows it answering with the new version's index
  page before the new worker takes over.
\<close>

datatype version = Old | New

record reg_sys =
  rhost :: host
  new_state :: worker_state
  clients :: nat
  rserved :: "(version \<times> request \<times> (js_error + response)) list"

inductive reg_step :: "reg_sys \<Rightarrow> reg_sys \<Rightarrow> bool" where
  install_ok: "new_state s = Parsed \<Longrightarrow> dispatch_install N sw_listeners (rhost s) = (Inr (), h') \<Longrightarrow>
     reg_step s (s\<lparr>rhost := h', new_state := Installed\<rparr>)"
| install_fail: "new_state s = Parsed \<Longrightarrow> dispatch_install N sw_listeners (rhost s) = (Inl e, h') \<Longrightarrow>
     reg_step s (s\<lparr>rhost := h', new_state := Redundant\<rparr>)"
| activate: "new_state s = Installed \<Longrightarrow> clients s = 0 \<Longrightarrow> reg_step s (s\<lparr>new_state := Activated\<rparr>)"
| client_open: "reg_step s (s\<lparr>clients := Suc (clients s)\<rparr>)"
| client_close: "0 < clients s \<Longrightarrow> reg_step s (s\<lparr>clients := clients s - 1\<rparr>)"
| fetch_old: "new_state s \<noteq> Activated \<Longrightarrow> dispatch_fetch N q sw_listeners (rhost s) = (r, h') \<Longrightarrow>
     reg_step s (s\<lparr>rhost := h', rserved := rserved s @ [(Old, q, r)]\<rparr>)"
| fetch_new: "new_state s = Activated \<Longrightarrow> dispatch_fetch N q sw_listeners (rhost s) = (r, h') \<Longrightarrow>
     reg_step s (s\<lparr>rhost := h', rserved := rserved s @ [(New, q, r)]\<rparr>)"
| other_write: "n \<noteq> CACHE_NAME \<Longrightarrow>
     reg_step s (s\<lparr>rhost := (rhost s)\<lparr>caches := AList.update n c (caches (rhost s))\<rparr>\<rparr>)"

text \<open>The runs of an update that starts on the host \<open>h0\<close> the old worker left,
  with \<open>n\<close> pages under its control.\<close>

inductive reg_reach :: "host \<Rightarrow> reg_sys \<Rightarrow> bool" for h0 :: host where
  start: "reg_reach h0 \<lparr>rhost = h0, new_state = Parsed, clients = n, rserved = []\<rparr>"
| step: "reg_reach h0 s \<Longrightarrow> reg_step s t \<Longrightarrow> reg_reach h0 t"

definition update_ok :: "host \<Rightarrow> reg_sys \<Rightarrow> bool" where
  "update_ok h0 s \<longleftrightarrow> script_url (rhost s) = script_url h0 \<and> assets_in (rhost s) \<and>
     (\<forall>(v, q, r)\<in>set (rserved s). asset_request (script_url h0) q \<longrightarrow> (\<exists>resp. r = Inr resp))"

text \<open>A concrete update: the old worker left both assets cached with the body
  \<open>old\<close>; the network now serves new bodies; one page stays open during the
  install, then closes, and the new worker takes over.\<close>

abbreviation upd_old :: response where
  "upd_old \<equiv> \<lparr>status = 200, body = ''old''\<rparr>"

abbreviation upd_new_index :: response where
  "upd_new_index \<equiv> \<lparr>status = 200, body = ''/index.html''\<rparr>"

abbreviation upd_host :: host where
  "upd_host \<equiv> \<lparr>net_log = [], caches = [(CACHE_NAME,
      [(\<lparr>req_url = ''/'', req_method = GET\<rparr>, upd_old), (demo_index, upd_old)])], script_url = ''/sw.js''\<rparr>"

abbreviation upd_h1 :: host where
  "upd_h1 \<equiv> snd (install_handler demo_net upd_host)"

abbreviation upd_waiting :: reg_sys where
  "upd_waiting \<equiv> \<lparr>rhost = upd_h1, new_state = Installed, clients = 1, rserved = [(Old, demo_index, Inr upd_new_index)]\<rparr>"

abbreviation upd_switched :: reg_sys where
  "upd_switched \<equiv> \<lparr>rhost = upd_h1, new_state = Activated, clients = 0,
     rserved = [(Old, demo_index, Inr upd_new_index), (New, demo_index, Inr upd_new_index),
                (New, demo_index, Inr upd_new_index)]\<rparr>"

subsection \<open>What install and fetch keep\<close>

text \<open>A rejected install leaves the cache \<open>uni-bot-v1\<close> as it was: \<open>caches.open\<close>
  finds or creates it, and \<open>addAll\<close> stores nothing of its batch.\<close>

lemma install_reject_cache_of:
  "fst (install_handler N h) = Inl e \<Longrightarrow> cache_of (snd (install_handler N h)) CACHE_NAME = cache_of h CACHE_NAME"
  using add_all_reject_keeps_caches [of N CACHE_NAME ASSETS "snd (caches_open CACHE_NAME h)" e]
  by (simp add: install_handler_eq cache_of_def [of "snd (add_all N CACHE_NAME ASSETS (snd (caches_open CACHE_NAME h)))"])
     (simp add: cache_of_def [symmetric])

lemma install_keeps_assets_in: "assets_in h \<Longrightarrow> assets_in (snd (install_handler N h))"
proof (cases "fst (install_handler N h)")
  case (Inl e)
  then show "assets_in h \<Longrightarrow> ?thesis" using install_reject_cache_of [OF Inl] by (simp add: assets_in_def)
next
  case (Inr u)
  then have "fst (install_handler N h) = Inr ()" by simp
  then show ?thesis using install_handler_caches_assets [of N h] by (simp add: assets_in_def)
qed

lemma fetch_keeps_update_ok:
  assumes "update_ok h0 s" and "dispatch_fetch N q sw_listeners (rhost s) = (r, h')"
  shows "update_ok h0 (s\<lparr>rhost := h', rserved := rserved s @ [(v, q, r)]\<rparr>)"
proof -
  have h': "h' = snd (fetch_handler N q (rhost s))" using assms(2) by simp
  have "\<exists>resp. r = Inr resp" if "asset_request (script_url h0) q"
    using fetch_asset_answer [OF _ _ assms(2)] assms(1) that by (simp add: update_ok_def)
  with assms(1) h' fetch_keeps_assets_in [of "rhost s" N q] fetch_handler_frame [of N q "rhost s"]
  show ?thesis by (auto simp: update_ok_def)
qed

lemma reg_step_update_ok: "reg_step s t \<Longrightarrow> update_ok h0 s \<Longrightarrow> update_ok h0 t"
proof (induction rule: reg_step.induct)
  case (install_ok s N h')
  then show ?case using install_keeps_assets_in [of "rhost s" N] install_handler_script_url [of N "rhost s"]
    by (auto simp: update_ok_def)
next
  case (install_fail s N e h')
  then show ?case using install_keeps_assets_in [of "rhost s" N] install_handler_script_url [of N "rhost s"]
    by (auto simp: update_ok_def)
next
  case (fetch_old s N q r h')
  show ?case by (rule fetch_keeps_update_ok [OF fetch_old.prems fetch_old.hyps(2)])
next
  case (fetch_new s N q r h')
  show ?case by (rule fetch_keeps_update_ok [OF fetch_new.prems fetch_new.hyps(2)])
next
  case (other_write n s c)
  then show ?case by (auto simp: update_ok_def assets_in_def cache_of_other_write)
qed (simp_all add: update_ok_def)

lemma reg_reach_update_ok:
  assumes "reg_reach h0 s" and "assets_in h0"
  shows "update_ok h0 s"
  using assms(1)
proof (induction rule: reg_reach.induct)
  case (start n)
  from assms(2) show ?case by (simp add: update_ok_def)
next
  case (step s t)
  from step.hyps(2) step.IH show ?case by (rule reg_step_update_ok)
qed

subsection \<open>The concrete update is a run\<close>

lemma upd_install: "fst (install_handler demo_net upd_host) = Inr ()"
  by (simp add: sw_simps Let_def)

lemma upd_fetch: "fetch_handler demo_net demo_index upd_h1 = (Inr upd_new_index, upd_h1)"
  by (simp add: sw_simps Let_def put_entry_def cache_of_def)

lemma upd_waiting_reach: "reg_reach upd_host upd_waiting"
proof -
  let ?s0 = "\<lparr>rhost = upd_host, new_state = Parsed, clients = 1, rserved = []\<rparr>"
  let ?s1 = "?s0\<lparr>rhost := upd_h1, new_state := Installed\<rparr>"
  have r0: "reg_reach upd_host ?s0" by (rule reg_reach.start)
  have "reg_step ?s0 ?s1" by (rule reg_step.install_ok [where N = demo_net]) (simp_all add: prod_eq_iff upd_install)
  with r0 have r1: "reg_reach upd_host ?s1" by (rule reg_reach.step)
  have "reg_step ?s1 (?s1\<lparr>rhost := upd_h1, rserved := rserved ?s1 @ [(Old, demo_index, Inr upd_new_index)]\<rparr>)"
    by (rule reg_step.fetch_old [where N = demo_net]) (simp_all add: upd_fetch)
  from reg_reach.step [OF r1 this] show ?thesis by simp
qed

lemma upd_switched_reach: "reg_reach upd_host upd_switched"
proof -
  let ?s3 = "upd_waiting\<lparr>clients := 0\<rparr>"
  let ?s4 = "?s3\<lparr>new_state := Activated\<rparr>"
  let ?e = "(New, demo_index, Inr upd_new_index)"
  let ?s5 = "?s4\<lparr>rhost := upd_h1, rserved := rserved ?s4 @ [?e]\<rparr>"
  have "reg_step upd_waiting ?s3" using reg_step.client_close [of upd_waiting] by simp
  with upd_waiting_reach have r3: "reg_reach upd_host ?s3" by (rule reg_reach.step)
  have "reg_step ?s3 ?s4" by (rule reg_step.activate) simp_all
  with r3 have r4: "reg_reach upd_host ?s4" by (rule reg_reach.step)
  have "reg_step ?s4 ?s5"
    by (rule reg_step.fetch_new [where N = demo_net]) (simp_all add: upd_fetch)
  with r4 have r5: "reg_reach upd_host ?s5" by (rule reg_reach.step)
  have "reg_step ?s5 (?s5\<lparr>rhost := upd_h1, rserved := rserved ?s5 @ [?e]\<rparr>)"
    by (rule reg_step.fetch_new [where N = demo_net]) (simp_all add: upd_fetch)
  from reg_reach.step [OF r5 this] show ?thesis by simp
qed

lemma upd_host_assets_in: "assets_in upd_host"
  by (simp add: assets_in_def ASSETS_def sw_simps cache_of_def)

subsection \<open>Properties of the update\<close>

text \<open>
  C28. An update never breaks offline serving: when the old worker left every
  asset in \<open>uni-bot-v1\<close>, then in every run of the update, whether the new
  install resolves or rejects, the assets stay in the cache and every asset
  request, answered by the old or by the new worker, gets a response.
\<close>

theorem update_keeps_offline:
  assumes "reg_reach h0 s" and "assets_in h0"
    and "(v, q, r) \<in> set (rserved s)" and "asset_request (script_url h0) q"
  shows "assets_in (rhost s) \<and> (\<exists>resp. r = Inr resp)"
  using reg_reach_update_ok [OF assms(1,2)] assms(3,4) by (auto simp: update_ok_def)

theorem update_keeps_offline_witness:
  "reg_reach upd_host upd_switched \<and> assets_in upd_host \<and>
   (New, demo_index, Inr upd_new_index) \<in> set (rserved upd_switched) \<and>
   asset_request (script_url upd_host) demo_index \<and> assets_in (rhost upd_switched)"
proof -
  have m: "(New, demo_index, Inr upd_new_index) \<in> set (rserved upd_switched)" by simp
  have a: "asset_request (script_url upd_host) demo_index" using demo_index_asset by simp
  from update_keeps_offline [OF upd_switched_reach upd_host_assets_in m a] upd_switched_reach upd_host_assets_in m a
  show ?thesis by simp
qed

end
