(* ===== verification/SW_Concurrency.thy ===== *)
theory SW_Concurrency
  imports SW_Handlers "HOL-Library.Multiset"
begin

text \<open>
  Concurrent fetch events.  The fetch listener's chain
  \<open>caches.match(e.request).then(response => response || fetch(e.request))\<close>
  suspends twice: until \<open>caches.match\<close> resolves, and on a miss until the
  network answers the \<open>fetch\<close> the callback issued.  The browser delivers
  fetch events independently and resumes suspended chains in completion order,
  so the stages of many events interleave.  Here each event is a task with the
  phase of its chain, and one step is one stage of one task: a new event arrives,
  a pending match resolves (a hit settles the task; a miss sends the request to
  the network), or the network answers a sent request.  The network \<open>N\<close> is
  fixed for a run; a request whose answer never comes stays \<open>Fetching\<close>.  The
  theorems show that every interleaving gives each request the answer the fetch
  handler gives when run alone, sends exactly one network request per miss and
  none per hit, and never writes a cache.
\<close>

datatype fetch_phase = Matching | Hit response | Fetching | Fetched "js_error + response"

record fetch_task =
  t_req :: request
  t_phase :: fetch_phase

type_synonym conc_state = "host \<times> fetch_task list"

text \<open>The outcome of the network for a request, as \<open>fetch\<close> settles.\<close>

definition net_result :: "network \<Rightarrow> request \<Rightarrow> js_error + response" where
  "net_result N q = (case N q of None \<Rightarrow> Inl TypeError | Some r \<Rightarrow> Inr r)"

inductive conc_step :: "network \<Rightarrow> conc_state \<Rightarrow> conc_state \<Rightarrow> bool" for N :: network where
  arrive: "conc_step N (h, ts) (h, ts @ [\<lparr>t_req = q, t_phase = Matching\<rparr>])"
| hit: "i < length ts \<Longrightarrow> t_phase (ts ! i) = Matching \<Longrightarrow> match_caches (t_req (ts ! i)) (caches h) = Some r \<Longrightarrow>
     conc_step N (h, ts) (h, ts[i := (ts ! i)\<lparr>t_phase := Hit r\<rparr>])"
| miss: "i < length ts \<Longrightarrow> t_phase (ts ! i) = Matching \<Longrightarrow> match_caches (t_req (ts ! i)) (caches h) = None \<Longrightarrow>
     conc_step N (h, ts) (h\<lparr>net_log := net_log h @ [t_req (ts ! i)]\<rparr>, ts[i := (ts ! i)\<lparr>t_phase := Fetching\<rparr>])"
| settle: "i < length ts \<Longrightarrow> t_phase (ts ! i) = Fetching \<Longrightarrow>
     conc_step N (h, ts) (h, ts[i := (ts ! i)\<lparr>t_phase := Fetched (net_result N (t_req (ts ! i)))\<rparr>])"

inductive conc_reach :: "network \<Rightarrow> host \<Rightarrow> conc_state \<Rightarrow> bool" for N :: network and h0 :: host where
  empty: "conc_reach N h0 (h0, [])"
| step: "conc_reach N h0 s \<Longrightarrow> conc_step N s s' \<Longrightarrow> conc_reach N h0 s'"

fun settled :: "fetch_phase \<Rightarrow> (js_error + response) option" where
  "settled (Hit r) = Some (Inr r)"
| "settled (Fetched res) = Some res"
| "settled Matching = None"
| "settled Fetching = None"

fun sent :: "fetch_phase \<Rightarrow> bool" where
  "sent Fetching = True"
| "sent (Fetched _) = True"
| "sent Matching = False"
| "sent (Hit _) = False"

text \<open>What a task's phase says about the initial host: the invariant of a run.\<close>

fun phase_ok :: "network \<Rightarrow> host \<Rightarrow> request \<Rightarrow> fetch_phase \<Rightarrow> bool" where
  "phase_ok N h0 q Matching = True"
| "phase_ok N h0 q (Hit r) = (match_caches q (caches h0) = Some r)"
| "phase_ok N h0 q Fetching = (match_caches q (caches h0) = None)"
| "phase_ok N h0 q (Fetched res) = (match_caches q (caches h0) = None \<and> res = net_result N q)"

definition conc_inv :: "network \<Rightarrow> host \<Rightarrow> conc_state \<Rightarrow> bool" where
  "conc_inv N h0 s \<longleftrightarrow>
     caches (fst s) = caches h0 \<and> script_url (fst s) = script_url h0 \<and>
     (\<exists>ns. net_log (fst s) = net_log h0 @ ns \<and>
           mset ns = mset (map t_req (filter (sent \<circ> t_phase) (snd s)))) \<and>
     (\<forall>t\<in>set (snd s). phase_ok N h0 (t_req t) (t_phase t))"

text \<open>How far a task is from settled: two stages while matching, one while fetching.\<close>

fun phase_weight :: "fetch_phase \<Rightarrow> nat" where
  "phase_weight Matching = 2"
| "phase_weight Fetching = 1"
| "phase_weight (Hit _) = 0"
| "phase_weight (Fetched _) = 0"

text \<open>The next stage of one task: the resolution of \<open>caches.match\<close> (a hit settles
  the task, a miss sends \<open>fetch(e.request)\<close>), or the network's answer.\<close>

definition resume :: "network \<Rightarrow> host \<Rightarrow> fetch_task \<Rightarrow> host \<times> fetch_task" where
  "resume N h t = (case t_phase t of
       Matching \<Rightarrow> (case match_caches (t_req t) (caches h) of
           Some r \<Rightarrow> (h, t\<lparr>t_phase := Hit r\<rparr>)
         | None \<Rightarrow> (h\<lparr>net_log := net_log h @ [t_req t]\<rparr>, t\<lparr>t_phase := Fetching\<rparr>))
     | Fetching \<Rightarrow> (h, t\<lparr>t_phase := Fetched (net_result N (t_req t))\<rparr>)
     | _ \<Rightarrow> (h, t))"

text \<open>A concrete interleaving, used by the witnesses: \<open>/index.html\<close> is cached,
  \<open>/other.js\<close> is not; the request for \<open>/other.js\<close> arrives first and misses,
  then the one for \<open>/index.html\<close> arrives and is answered from the cache before the
  network answers the first.\<close>

abbreviation c_index :: request where
  "c_index \<equiv> \<lparr>req_url = ''/index.html'', req_method = GET\<rparr>"

abbreviation c_other :: request where
  "c_other \<equiv> \<lparr>req_url = ''/other.js'', req_method = GET\<rparr>"

abbreviation c_cached :: response where
  "c_cached \<equiv> \<lparr>status = 200, body = ''cached''\<rparr>"

abbreviation c_fresh :: response where
  "c_fresh \<equiv> \<lparr>status = 200, body = ''fresh''\<rparr>"

abbreviation c_net :: network where
  "c_net \<equiv> \<lambda>q. Some c_fresh"

abbreviation c_host :: host where
  "c_host \<equiv> \<lparr>net_log = [], caches = [(CACHE_NAME, [(c_index, c_cached)])], script_url = ''/sw.js''\<rparr>"

abbreviation c_final :: conc_state where
  "c_final \<equiv> (c_host\<lparr>net_log := [c_other]\<rparr>,
     [\<lparr>t_req = c_other, t_phase = Fetched (Inr c_fresh)\<rparr>, \<lparr>t_req = c_index, t_phase = Hit c_cached\<rparr>])"

subsection \<open>The invariant of a run\<close>

lemma net_result_fetch: "fst (net_fetch N q h) = net_result N q"
  by (simp add: net_fetch_result net_result_def)

text \<open>Changing one element of a list changes the multiset of what a filter keeps
  by that element only.\<close>

lemma mset_filter_update:
  assumes "i < length xs"
  shows "mset (map g (filter P (xs[i := x]))) + (if P (xs ! i) then {#g (xs ! i)#} else {#}) =
         mset (map g (filter P xs)) + (if P x then {#g x#} else {#})"
proof -
  define M where "M = mset xs - {#xs ! i#}"
  have old: "mset xs = add_mset (xs ! i) M"
    using assms by (simp add: M_def insert_Diff)
  have new: "mset (xs[i := x]) = add_mset x M"
    using assms by (simp add: M_def mset_update)
  show ?thesis
    by (simp only: mset_map mset_filter old new) (simp add: add_ac)
qed

lemma conc_inv_update:
  assumes "conc_inv N h0 (h, ts)" and "i < length ts"
    and "t_req x = t_req (ts ! i)" and "phase_ok N h0 (t_req x) (t_phase x)"
    and "sent (t_phase x) = sent (t_phase (ts ! i))"
  shows "conc_inv N h0 (h, ts[i := x])"
proof -
  have "mset (map t_req (filter (sent \<circ> t_phase) (ts[i := x]))) = mset (map t_req (filter (sent \<circ> t_phase) ts))"
    using mset_filter_update [OF assms(2), of t_req "sent \<circ> t_phase" x] assms(3,5)
    by (simp split: if_splits)
  moreover have "\<forall>t\<in>set (ts[i := x]). phase_ok N h0 (t_req t) (t_phase t)"
    using assms(1,4) set_update_subset_insert [of ts i x] by (auto simp: conc_inv_def)
  ultimately show ?thesis using assms(1) by (simp add: conc_inv_def)
qed

lemma conc_step_inv:
  assumes "conc_step N s s'" and "conc_inv N h0 s"
  shows "conc_inv N h0 s'"
  using assms
proof (induction rule: conc_step.induct)
  case (arrive h ts q)
  then show ?case by (simp add: conc_inv_def)
next
  case (hit i ts h r)
  then show ?case by (intro conc_inv_update) (simp_all add: conc_inv_def)
next
  case (miss i ts h)
  let ?x = "(ts ! i)\<lparr>t_phase := Fetching\<rparr>"
  from miss.prems obtain ns where ns: "net_log h = net_log h0 @ ns"
    and m: "mset ns = mset (map t_req (filter (sent \<circ> t_phase) ts))"
    by (auto simp: conc_inv_def)
  have "mset (ns @ [t_req (ts ! i)]) = mset (map t_req (filter (sent \<circ> t_phase) (ts[i := ?x])))"
    using mset_filter_update [OF miss.hyps(1), of t_req "sent \<circ> t_phase" ?x] miss.hyps(2) m by simp
  moreover have "\<forall>t\<in>set (ts[i := ?x]). phase_ok N h0 (t_req t) (t_phase t)"
    using miss.prems miss.hyps set_update_subset_insert [of ts i ?x] by (auto simp: conc_inv_def)
  ultimately show ?case using miss.prems ns by (auto simp: conc_inv_def)
next
  case (settle i ts h)
  have "ts ! i \<in> set ts" using settle.hyps(1) by simp
  with settle.prems settle.hyps(2) have "match_caches (t_req (ts ! i)) (caches h0) = None"
    by (force simp: conc_inv_def)
  with settle show ?case by (intro conc_inv_update) (auto simp: conc_inv_def)
qed

lemma conc_reach_inv: "conc_reach N h0 s \<Longrightarrow> conc_inv N h0 s"
proof (induction rule: conc_reach.induct)
  case empty
  then show ?case by (simp add: conc_inv_def)
next
  case (step s s')
  from step.hyps(2) step.IH show ?case by (rule conc_step_inv)
qed

text \<open>A settled phase that the invariant allows is the answer of the fetch handler
  run alone on the initial host.\<close>

lemma phase_ok_settled:
  assumes "phase_ok N h0 q ph" and "settled ph = Some res"
  shows "fst (fetch_handler N q h0) = res"
  using assms by (cases ph) (auto simp: fetch_handler_eq net_result_fetch)

subsection \<open>Progress\<close>

text \<open>Resuming a pending task is a stage of \<open>conc_step\<close> that keeps its request and
  lowers its weight.\<close>

lemma resume_step:
  assumes "i < length ts" and "settled (t_phase (ts ! i)) = None" and "resume N h (ts ! i) = (h', t')"
  shows "conc_step N (h, ts) (h', ts[i := t']) \<and> t_req t' = t_req (ts ! i) \<and>
         phase_weight (t_phase t') < phase_weight (t_phase (ts ! i))"
proof (cases "t_phase (ts ! i)")
  case Matching
  show ?thesis
  proof (cases "match_caches (t_req (ts ! i)) (caches h)")
    case None
    with assms(3) Matching have "h' = h\<lparr>net_log := net_log h @ [t_req (ts ! i)]\<rparr>"
      and "t' = (ts ! i)\<lparr>t_phase := Fetching\<rparr>" by (auto simp: resume_def)
    with conc_step.miss [OF assms(1) Matching None] Matching show ?thesis by simp
  next
    case (Some r)
    with assms(3) Matching have "h' = h" and "t' = (ts ! i)\<lparr>t_phase := Hit r\<rparr>"
      by (auto simp: resume_def)
    with conc_step.hit [OF assms(1) Matching Some] Matching show ?thesis by simp
  qed
next
  case Fetching
  with assms(3) have "h' = h" and "t' = (ts ! i)\<lparr>t_phase := Fetched (net_result N (t_req (ts ! i)))\<rparr>"
    by (auto simp: resume_def)
  with conc_step.settle [OF assms(1) Fetching] Fetching show ?thesis by simp
qed (use assms(2) in simp_all)

text \<open>No stage of a fetch chain writes a cache or changes the script URL.\<close>

inductive_cases conc_stepE: "conc_step N (h, ts) (h', ts')"

lemma conc_step_frame:
  "conc_step N (h, ts) (h', ts') \<Longrightarrow> caches h' = caches h \<and> script_url h' = script_url h"
  by (erule conc_stepE) auto

text \<open>Building runs: a new event, and the next stage of a pending one.\<close>

lemma conc_reach_arrive:
  "conc_reach N h0 (h, ts) \<Longrightarrow> conc_reach N h0 (h, ts @ [\<lparr>t_req = q, t_phase = Matching\<rparr>])"
  by (erule conc_reach.step) (rule conc_step.arrive)

lemma conc_reach_resume:
  assumes "conc_reach N h0 (h, ts)" and "i < length ts" and "settled (t_phase (ts ! i)) = None"
  shows "conc_reach N h0 (fst (resume N h (ts ! i)), ts[i := snd (resume N h (ts ! i))])"
  using assms(1) resume_step [OF assms(2,3), of N h "fst (resume N h (ts ! i))" "snd (resume N h (ts ! i))"]
  by (auto intro: conc_reach.step)

subsection \<open>The demo interleaving is a run\<close>

lemma c_final_reach: "conc_reach c_net c_host c_final"
proof -
  let ?t1 = "\<lparr>t_req = c_other, t_phase = Matching\<rparr>"
  let ?t2 = "\<lparr>t_req = c_index, t_phase = Matching\<rparr>"
  have s2: "conc_reach c_net c_host (c_host, [?t1, ?t2])"
    using conc_reach_arrive [OF conc_reach_arrive [OF conc_reach.empty, of _ _ c_other], of _ _ c_index]
    by simp
  have "conc_reach c_net c_host (c_host\<lparr>net_log := [c_other]\<rparr>, [?t1\<lparr>t_phase := Fetching\<rparr>, ?t2])"
    using conc_reach_resume [OF s2, of 0] by (simp add: resume_def match_simps)
  from conc_reach_resume [OF this, of 1]
  have "conc_reach c_net c_host
      (c_host\<lparr>net_log := [c_other]\<rparr>, [?t1\<lparr>t_phase := Fetching\<rparr>, ?t2\<lparr>t_phase := Hit c_cached\<rparr>])"
    by (simp add: resume_def match_simps)
  from conc_reach_resume [OF this, of 0] show ?thesis by (simp add: resume_def net_result_def)
qed

subsection \<open>Properties of concurrent fetch events\<close>

text \<open>
  C18. Interleaving does not change answers: in every run of concurrent fetch
  events, every settled request has exactly the answer the fetch handler gives
  when it runs alone on the host the run started from.
\<close>

theorem conc_answers_as_sequential:
  assumes "conc_reach N h0 s" and "t \<in> set (snd s)" and "settled (t_phase t) = Some res"
  shows "fst (fetch_handler N (t_req t) h0) = res"
proof -
  from conc_reach_inv [OF assms(1)] assms(2) have "phase_ok N h0 (t_req t) (t_phase t)"
    by (auto simp: conc_inv_def)
  from phase_ok_settled [OF this assms(3)] show ?thesis .
qed

theorem conc_answers_as_sequential_witness:
  "conc_reach c_net c_host c_final \<and>
   \<lparr>t_req = c_other, t_phase = Fetched (Inr c_fresh)\<rparr> \<in> set (snd c_final) \<and>
   settled (Fetched (Inr c_fresh)) = Some (Inr c_fresh) \<and>
   fst (fetch_handler c_net c_other c_host) = Inr c_fresh"
proof -
  have t: "\<lparr>t_req = c_other, t_phase = Fetched (Inr c_fresh)\<rparr> \<in> set (snd c_final)" by simp
  have st: "settled (t_phase \<lparr>t_req = c_other, t_phase = Fetched (Inr c_fresh)\<rparr>) = Some (Inr c_fresh)" by simp
  from conc_answers_as_sequential [OF c_final_reach t st] c_final_reach t show ?thesis by simp
qed

text \<open>
  C19. In every run of concurrent fetch events the caches are never written, and
  the requests sent to the network are, as a multiset, exactly the requests of
  the tasks that missed: one network request per miss, none per hit.
\<close>

theorem conc_one_request_per_miss:
  assumes "conc_reach N h0 s"
  shows "caches (fst s) = caches h0 \<and>
         (\<exists>ns. net_log (fst s) = net_log h0 @ ns \<and>
               mset ns = mset (map t_req (filter (sent \<circ> t_phase) (snd s)))) \<and>
         (\<forall>t\<in>set (snd s). sent (t_phase t) \<longrightarrow> match_caches (t_req t) (caches h0) = None)"
proof -
  have inv: "conc_inv N h0 s" using assms by (rule conc_reach_inv)
  have "sent (t_phase t) \<longrightarrow> match_caches (t_req t) (caches h0) = None" if "t \<in> set (snd s)" for t
    using inv that by (cases "t_phase t") (auto simp: conc_inv_def)
  with inv show ?thesis by (auto simp: conc_inv_def)
qed

theorem conc_one_request_per_miss_witness:
  "conc_reach c_net c_host c_final \<and> caches (fst c_final) = caches c_host \<and>
   net_log (fst c_final) = net_log c_host @ [c_other] \<and>
   mset [c_other] = mset (map t_req (filter (sent \<circ> t_phase) (snd c_final)))"
proof -
  from conc_one_request_per_miss [OF c_final_reach] c_final_reach show ?thesis by simp
qed

end
