(* ===== verification/SW_Event_Loop.thy ===== *)
theory SW_Event_Loop
  imports SW_Concurrency "HOL-Library.While_Combinator"
begin

text \<open>
  Termination of the fetch listener's stages.  Without new fetch events, every
  run of the stages of \<open>caches.match(e.request).then(response => response ||
  fetch(e.request))\<close> stops: each stage brings one task closer to settled.  The
  browser's event loop is modelled as one deterministic scheduler among those the
  step relation \<open>conc_step\<close> allows: while some task is pending, it resumes the
  first pending one by one stage (\<open>resume\<close> of \<^theory_text>\<open>SW_Concurrency\<close>).  Written with \<open>while_option\<close>, the
  loop returns \<open>Some\<close> exactly when it halts; the theorems show that it halts on
  every state, that its steps are steps of \<open>conc_step\<close>, and that it answers
  every pending request with the answer of the fetch handler run alone.
\<close>

text \<open>The index of the first task whose chain has not settled.\<close>

fun first_pending :: "fetch_task list \<Rightarrow> nat option" where
  "first_pending [] = None"
| "first_pending (t # ts) =
     (if settled (t_phase t) = None then Some 0 else map_option Suc (first_pending ts))"

definition loop_step :: "network \<Rightarrow> conc_state \<Rightarrow> conc_state" where
  "loop_step N s = (case first_pending (snd s) of
       None \<Rightarrow> s
     | Some i \<Rightarrow> (case resume N (fst s) (snd s ! i) of (h', t') \<Rightarrow> (h', (snd s)[i := t'])))"

definition event_loop :: "network \<Rightarrow> conc_state \<Rightarrow> conc_state option" where
  "event_loop N = while_option (\<lambda>s. first_pending (snd s) \<noteq> None) (loop_step N)"

text \<open>A stage of a run in which no new fetch event arrives.\<close>

definition conc_internal :: "network \<Rightarrow> conc_state \<Rightarrow> conc_state \<Rightarrow> bool" where
  "conc_internal N s s' \<longleftrightarrow> conc_step N s s' \<and> length (snd s') = length (snd s)"

text \<open>How many stages the pending tasks of a state still have to run.\<close>

definition pending_weight :: "conc_state \<Rightarrow> nat" where
  "pending_weight s = sum_list (map (phase_weight \<circ> t_phase) (snd s))"

text \<open>The demo of \<open>SW_Concurrency\<close> before any stage has run: both requests have
  arrived and are matching.\<close>

abbreviation c_arrived :: conc_state where
  "c_arrived \<equiv> (c_host, [\<lparr>t_req = c_other, t_phase = Matching\<rparr>, \<lparr>t_req = c_index, t_phase = Matching\<rparr>])"

subsection \<open>The scheduler's choice\<close>

lemma first_pending_Some:
  "first_pending ts = Some i \<Longrightarrow> i < length ts \<and> settled (t_phase (ts ! i)) = None"
  by (induction ts arbitrary: i) (auto split: if_splits)

lemma first_pending_None_iff:
  "first_pending ts = None \<longleftrightarrow> (\<forall>t\<in>set ts. settled (t_phase t) \<noteq> None)"
  by (induction ts) auto

lemma loop_step_step:
  assumes "first_pending (snd s) \<noteq> None"
  shows "conc_internal N s (loop_step N s) \<and> map t_req (snd (loop_step N s)) = map t_req (snd s) \<and>
         pending_weight (loop_step N s) < pending_weight s"
proof -
  obtain h ts where s: "s = (h, ts)" by (cases s)
  from assms s obtain i where i: "first_pending ts = Some i" by auto
  from first_pending_Some [OF i] have l: "i < length ts" and u: "settled (t_phase (ts ! i)) = None"
    by simp_all
  obtain h' t' where r: "resume N h (ts ! i) = (h', t')" by (cases "resume N h (ts ! i)")
  have ls: "loop_step N s = (h', ts[i := t'])" using s i r by (simp add: loop_step_def)
  from resume_step [OF l u r] have st: "conc_step N (h, ts) (h', ts[i := t'])"
    and q: "t_req t' = t_req (ts ! i)" and w: "phase_weight (t_phase t') < phase_weight (t_phase (ts ! i))"
    by simp_all
  have "map t_req (ts[i := t']) = map t_req ts"
    using l q list_update_id [of "map t_req ts" i] by (simp add: map_update)
  moreover have "pending_weight (h', ts[i := t']) < pending_weight (h, ts)"
    using sum_list_map_update_less [OF l, of "phase_weight \<circ> t_phase" t'] w by (simp add: pending_weight_def)
  ultimately show ?thesis using st s ls by (simp add: conc_internal_def)
qed

subsection \<open>Every stage lowers the weight\<close>

lemma event_loop_inv:
  assumes "event_loop N s = Some s'" and "P s"
    and "\<And>x. P x \<Longrightarrow> first_pending (snd x) \<noteq> None \<Longrightarrow> P (loop_step N x)"
  shows "P s' \<and> first_pending (snd s') = None"
  using while_option_rule [where P = P, OF assms(3) assms(1) [unfolded event_loop_def] assms(2)]
    while_option_stop [OF assms(1) [unfolded event_loop_def]] by simp

lemma event_loop_unfold:
  "event_loop N s = (if first_pending (snd s) = None then Some s else event_loop N (loop_step N s))"
  unfolding event_loop_def by (subst while_option_unfold) simp

lemma c_arrived_reach: "conc_reach c_net c_host c_arrived"
  using conc_reach_arrive [OF conc_reach_arrive [OF conc_reach.empty, of _ _ c_other], of _ _ c_index] by simp

text \<open>The event loop runs the demo to the interleaving's final state of
  \<open>SW_Concurrency\<close>, by evaluation.\<close>

lemma event_loop_demo: "event_loop c_net c_arrived = Some c_final"
  by (simp add: event_loop_unfold loop_step_def resume_def match_simps net_result_def)

subsection \<open>Termination of the fetch stages and of the event loop\<close>

text \<open>
  C20. The event loop halts on every state, after at most two stages per
  pending request (\<open>pending_weight\<close>: two while matching, one while fetching).
\<close>

theorem event_loop_stage_bound:
  "\<exists>k\<le>pending_weight s. event_loop N s = Some ((loop_step N ^^ k) s)"
proof (induction "pending_weight s" arbitrary: s rule: less_induct)
  case less
  show ?case
  proof (cases "first_pending (snd s) = None")
    case True
    then show ?thesis by (intro exI [of _ 0]) (simp add: event_loop_unfold)
  next
    case False
    from loop_step_step [OF False] have w: "pending_weight (loop_step N s) < pending_weight s" by blast
    from less [OF w] obtain k where k: "k \<le> pending_weight (loop_step N s)"
      and e: "event_loop N (loop_step N s) = Some ((loop_step N ^^ k) (loop_step N s))" by blast
    have "event_loop N s = event_loop N (loop_step N s)"
      using False by (simp only: event_loop_unfold [of N s] if_False)
    also have "\<dots> = Some ((loop_step N ^^ Suc k) s)"
      using e by (simp only: funpow_Suc_right comp_def)
    finally have "event_loop N s = Some ((loop_step N ^^ Suc k) s)" .
    with k w show ?thesis by (intro exI [of _ "Suc k"]) simp
  qed
qed

text \<open>
  C21. From every state of a run, the event loop halts in a state of the same
  run in which every request has been answered, and each answer is the one the
  fetch handler of src/sw.js gives when it runs alone on the run's initial host.
\<close>

theorem event_loop_answers:
  assumes "conc_reach N h0 s"
  shows "\<exists>s'. event_loop N s = Some s' \<and> conc_reach N h0 s' \<and> map t_req (snd s') = map t_req (snd s) \<and>
              (\<forall>t\<in>set (snd s'). settled (t_phase t) = Some (fst (fetch_handler N (t_req t) h0)))"
proof -
  let ?P = "\<lambda>x. conc_reach N h0 x \<and> map t_req (snd x) = map t_req (snd s)"
  have "\<exists>s'. event_loop N s = Some s'"
    unfolding event_loop_def
    by (rule measure_while_option_Some [where P = "\<lambda>_. True" and f = pending_weight])
       (simp_all add: loop_step_step)
  then obtain s' where e: "event_loop N s = Some s'" by blast
  have "?P s' \<and> first_pending (snd s') = None"
  proof (rule event_loop_inv [OF e])
    show "?P s" using assms by simp
  next
    fix x assume "?P x" and "first_pending (snd x) \<noteq> None"
    with loop_step_step [of x N] show "?P (loop_step N x)"
      by (auto simp: conc_internal_def intro: conc_reach.step)
  qed
  then have r: "conc_reach N h0 s'" and m: "map t_req (snd s') = map t_req (snd s)"
    and fin: "\<forall>t\<in>set (snd s'). settled (t_phase t) \<noteq> None"
    by (simp_all add: first_pending_None_iff)
  have "settled (t_phase t) = Some (fst (fetch_handler N (t_req t) h0))" if t: "t \<in> set (snd s')" for t
  proof -
    from fin t obtain res where res: "settled (t_phase t) = Some res" by blast
    from conc_reach_inv [OF r] t have "phase_ok N h0 (t_req t) (t_phase t)" by (auto simp: conc_inv_def)
    from phase_ok_settled [OF this res] res show ?thesis by simp
  qed
  with e r m show ?thesis by blast
qed

theorem event_loop_answers_witness:
  "conc_reach c_net c_host c_arrived \<and> event_loop c_net c_arrived = Some c_final \<and>
   settled (Fetched (Inr c_fresh)) = Some (fst (fetch_handler c_net c_other c_host)) \<and>
   settled (Hit c_cached) = Some (fst (fetch_handler c_net c_index c_host))"
proof -
  from event_loop_answers [OF c_arrived_reach] event_loop_demo
  have "\<forall>t\<in>set (snd c_final). settled (t_phase t) = Some (fst (fetch_handler c_net (t_req t) c_host))"
    by auto
  with c_arrived_reach event_loop_demo show ?thesis by simp
qed

end
