(* ===== verification/SW_Install_Stages.thy ===== *)
theory SW_Install_Stages
  imports SW_Concurrency
begin

text \<open>
  The install chain of src/sw.js (lines 12--14)
  \<open>caches.open(CACHE_NAME).then((cache) => { return cache.addAll(ASSETS); })\<close>,
  stage by stage, interleaved with fetch events.  The chain suspends three
  times: until \<open>caches.open\<close> resolves with the cache, until \<open>addAll\<close> has
  sent its requests, and until every response is in and the batch has run.  While
  a new version of the worker installs, the previous version is still active and
  answers the page's fetch events with its fetch listener, stage by stage as in
  \<^theory_text>\<open>SW_Concurrency\<close>; both read and write the same caches.  The state
  of a run is the host, the phase of the install chain, and the fetch tasks.

  The theorems show that the interleaving does not disturb the install (its
  outcome and the caches it leaves are those of \<open>install_handler\<close> run alone),
  that every reader sees the caches as a whole either as they were before the
  install or as the install leaves them, never half-written (the batch of
  \<open>addAll\<close> is atomic), and that every answer given during the install is the
  answer of the fetch handler on one of these two snapshots.
\<close>

datatype install_phase = IOpen | IAdd string | ISent string "request list" | IDone "js_error + unit"

text \<open>One stage of the install chain; \<open>None\<close> once it has settled.\<close>

fun install_stage :: "network \<Rightarrow> host \<Rightarrow> install_phase \<Rightarrow> (host \<times> install_phase) option" where
  "install_stage N h IOpen =
     (case caches_open CACHE_NAME h of
        (Inr cache, h') \<Rightarrow> Some (h', IAdd cache)
      | (Inl e, h') \<Rightarrow> Some (h', IDone (Inl e)))"
| "install_stage N h (IAdd cache) =
     (let reqs = map (new_request (script_url h)) ASSETS
      in Some (h\<lparr>net_log := net_log h @ reqs\<rparr>, ISent cache reqs))"
| "install_stage N h (ISent cache reqs) =
     (case add_all_commit N cache reqs h of (r, h') \<Rightarrow> Some (h', IDone r))"
| "install_stage N h (IDone r) = None"

type_synonym upd_state = "host \<times> install_phase \<times> fetch_task list"

inductive upd_step :: "network \<Rightarrow> upd_state \<Rightarrow> upd_state \<Rightarrow> bool" for N :: network where
  install: "install_stage N h ip = Some (h', ip') \<Longrightarrow> upd_step N (h, ip, ts) (h', ip', ts)"
| fetch: "conc_step N (h, ts) (h', ts') \<Longrightarrow> upd_step N (h, ip, ts) (h', ip, ts')"

inductive upd_reach :: "network \<Rightarrow> host \<Rightarrow> upd_state \<Rightarrow> bool" for N :: network and h0 :: host where
  start: "upd_reach N h0 (h0, IOpen, [])"
| step: "upd_reach N h0 s \<Longrightarrow> upd_step N s s' \<Longrightarrow> upd_reach N h0 s'"

text \<open>The cache map the invariant predicts for each phase of the install.\<close>

fun install_snapshot :: "network \<Rightarrow> host \<Rightarrow> install_phase \<Rightarrow> cache_map" where
  "install_snapshot N h0 IOpen = caches h0"
| "install_snapshot N h0 (IAdd cache) = caches (snd (caches_open CACHE_NAME h0))"
| "install_snapshot N h0 (ISent cache reqs) = caches (snd (caches_open CACHE_NAME h0))"
| "install_snapshot N h0 (IDone r) = caches (snd (install_handler N h0))"

fun phase_args_ok :: "network \<Rightarrow> host \<Rightarrow> install_phase \<Rightarrow> bool" where
  "phase_args_ok N h0 IOpen = True"
| "phase_args_ok N h0 (IAdd cache) = (cache = CACHE_NAME)"
| "phase_args_ok N h0 (ISent cache reqs) =
     (cache = CACHE_NAME \<and> reqs = map (new_request (script_url h0)) ASSETS)"
| "phase_args_ok N h0 (IDone r) = (r = fst (install_handler N h0))"

definition tasks_ok :: "network \<Rightarrow> host \<Rightarrow> fetch_task list \<Rightarrow> bool" where
  "tasks_ok N h0 ts \<longleftrightarrow>
     (\<forall>t\<in>set ts. phase_ok N h0 (t_req t) (t_phase t) \<or>
                 phase_ok N (snd (install_handler N h0)) (t_req t) (t_phase t))"

definition upd_inv :: "network \<Rightarrow> host \<Rightarrow> upd_state \<Rightarrow> bool" where
  "upd_inv N h0 s \<longleftrightarrow> (case s of (h, ip, ts) \<Rightarrow>
     script_url h = script_url h0 \<and> caches h = install_snapshot N h0 ip \<and>
     phase_args_ok N h0 ip \<and> tasks_ok N h0 ts)"

text \<open>A concrete run: the demo host of \<^theory_text>\<open>SW_Concurrency\<close>, whose cache
  \<open>uni-bot-v1\<close> holds an old copy of \<open>/index.html\<close>, installs while a request
  for \<open>/index.html\<close> is answered from the old copy between the sending of the
  asset requests and the commit.\<close>

abbreviation u_reqs :: "request list" where
  "u_reqs \<equiv> map (new_request ''/sw.js'') ASSETS"

abbreviation u_sent :: host where
  "u_sent \<equiv> c_host\<lparr>net_log := u_reqs\<rparr>"

abbreviation u_final :: upd_state where
  "u_final \<equiv> (snd (add_all_commit c_net CACHE_NAME u_reqs u_sent),
              IDone (fst (add_all_commit c_net CACHE_NAME u_reqs u_sent)),
              [\<lparr>t_req = c_index, t_phase = Hit c_cached\<rparr>])"

subsection \<open>Snapshots\<close>

lemma match_caches_append_empty: "match_caches q (cs @ [(n, [])]) = match_caches q cs"
  by (induction q cs rule: match_caches.induct)
     (simp_all add: cache_match_def query_cache_def split: option.splits)

lemma match_caches_open: "match_caches q (caches (snd (caches_open n h))) = match_caches q (caches h)"
  by (simp add: caches_open_def match_caches_append_empty)

lemma caches_open_caches:
  "caches h = caches h' \<Longrightarrow> caches_open n h = (Inr n, h\<lparr>caches := caches (snd (caches_open n h'))\<rparr>)"
  by (simp add: caches_open_def)

text \<open>Each snapshot answers every query as the host before the install or as the
  host after it does.\<close>

definition view :: "network \<Rightarrow> host \<Rightarrow> install_phase \<Rightarrow> host" where
  "view N h0 ip = (case ip of IDone r \<Rightarrow> snd (install_handler N h0) | _ \<Rightarrow> h0)"

lemma install_snapshot_view:
  "match_caches q (install_snapshot N h0 ip) = match_caches q (caches (view N h0 ip))"
  by (cases ip) (simp_all add: view_def match_caches_open)

lemma view_cases: "view N h0 ip = h0 \<or> view N h0 ip = snd (install_handler N h0)"
  by (cases ip) (simp_all add: view_def)

subsection \<open>The invariant\<close>

lemma tasks_ok_update:
  assumes "tasks_ok N h0 ts" and "i < length ts"
    and "phase_ok N h0 (t_req x) (t_phase x) \<or> phase_ok N (snd (install_handler N h0)) (t_req x) (t_phase x)"
  shows "tasks_ok N h0 (ts[i := x])"
  using assms set_update_subset_insert [of ts i x] by (auto simp: tasks_ok_def)

lemma phase_ok_view:
  "phase_ok N (view N h0 ip) q ph \<Longrightarrow>
   phase_ok N h0 q ph \<or> phase_ok N (snd (install_handler N h0)) q ph"
  using view_cases [of N h0 ip] by auto

lemma conc_step_upd_inv:
  assumes "conc_step N (h, ts) (h', ts')" and "upd_inv N h0 (h, ip, ts)"
  shows "upd_inv N h0 (h', ip, ts')"
proof -
  from assms(2) have c: "caches h = install_snapshot N h0 ip" and tk: "tasks_ok N h0 ts"
    by (simp_all add: upd_inv_def)
  have m: "match_caches q (caches h) = match_caches q (caches (view N h0 ip))" for q
    using c install_snapshot_view by simp
  from assms(1) tk have "tasks_ok N h0 ts'"
  proof (induction "(h, ts)" "(h', ts')" rule: conc_step.induct)
    case (arrive q)
    then show ?case by (auto simp: tasks_ok_def)
  next
    case (hit i r)
    then have "phase_ok N (view N h0 ip) (t_req (ts ! i)) (Hit r)" by (simp add: m [symmetric])
    with hit show ?case using tasks_ok_update [of N h0 ts i] phase_ok_view by fastforce
  next
    case (miss i)
    then have "phase_ok N (view N h0 ip) (t_req (ts ! i)) Fetching" by (simp add: m [symmetric])
    with miss show ?case using tasks_ok_update [of N h0 ts i] phase_ok_view by fastforce
  next
    case (settle i)
    have "ts ! i \<in> set ts" using settle.hyps(1) by simp
    with settle.prems settle.hyps(2) have
      "phase_ok N h0 (t_req (ts ! i)) Fetching \<or> phase_ok N (snd (install_handler N h0)) (t_req (ts ! i)) Fetching"
      by (force simp: tasks_ok_def)
    with settle show ?case using tasks_ok_update [of N h0 ts i] by fastforce
  qed
  with assms conc_step_frame [OF assms(1)] show ?thesis by (simp add: upd_inv_def)
qed

lemma install_stage_upd_inv:
  assumes "install_stage N h ip = Some (h', ip')" and "upd_inv N h0 (h, ip, ts)"
  shows "upd_inv N h0 (h', ip', ts)"
proof -
  from assms(2) have u: "script_url h = script_url h0" and c: "caches h = install_snapshot N h0 ip"
    and a: "phase_args_ok N h0 ip" and tk: "tasks_ok N h0 ts"
    by (simp_all add: upd_inv_def)
  show ?thesis
  proof (cases ip)
    case IOpen
    with assms(1) c caches_open_caches [of h h0 CACHE_NAME] u tk show ?thesis
      by (auto simp: upd_inv_def caches_open_def)
  next
    case (IAdd cache)
    with assms(1) u c a tk show ?thesis by (auto simp: upd_inv_def Let_def)
  next
    case (ISent cache reqs)
    let ?h1 = "snd (caches_open CACHE_NAME h0)"
    let ?h2 = "?h1\<lparr>net_log := net_log ?h1 @ reqs\<rparr>"
    from a ISent have n: "cache = CACHE_NAME" and r: "reqs = map (new_request (script_url h0)) ASSETS"
      by simp_all
    have "install_handler N h0 = add_all_commit N CACHE_NAME reqs ?h2"
      by (simp add: install_handler_eq add_all_split Let_def r)
    moreover have "caches h = caches ?h2" using c ISent by simp
    ultimately have "fst (add_all_commit N cache reqs h) = fst (install_handler N h0) \<and>
        caches (snd (add_all_commit N cache reqs h)) = caches (snd (install_handler N h0))"
      using add_all_commit_caches [of h ?h2 N CACHE_NAME reqs] n by simp
    moreover from assms(1) ISent have "h' = snd (add_all_commit N cache reqs h)"
      and "ip' = IDone (fst (add_all_commit N cache reqs h))" by (auto split: prod.splits)
    ultimately show ?thesis using u tk add_all_commit_frame [of N cache reqs h] by (simp add: upd_inv_def)
  next
    case (IDone r)
    with assms(1) show ?thesis by simp
  qed
qed

lemma upd_reach_inv: "upd_reach N h0 s \<Longrightarrow> upd_inv N h0 s"
proof (induction rule: upd_reach.induct)
  case start
  then show ?case by (simp add: upd_inv_def tasks_ok_def)
next
  case (step s s')
  from step.hyps(2) step.IH show ?case
    by (induction rule: upd_step.induct) (auto intro: install_stage_upd_inv conc_step_upd_inv)
qed

lemma u_final_reach: "upd_reach c_net c_host u_final"
proof -
  let ?t = "\<lparr>t_req = c_index, t_phase = Matching\<rparr>"
  have o: "upd_step c_net (c_host, IOpen, []) (c_host, IAdd CACHE_NAME, [])"
    by (intro upd_step.install) (simp add: caches_open_def)
  have a: "upd_step c_net (c_host, IAdd CACHE_NAME, []) (u_sent, ISent CACHE_NAME u_reqs, [])"
    by (intro upd_step.install) (simp add: Let_def)
  have f1: "upd_step c_net (u_sent, ISent CACHE_NAME u_reqs, []) (u_sent, ISent CACHE_NAME u_reqs, [?t])"
    using upd_step.fetch [OF conc_step.arrive [where N = c_net and h = u_sent and ts = "[]" and q = c_index]]
    by simp
  have m: "match_caches c_index (caches u_sent) = Some c_cached" by (simp add: match_simps)
  have f2: "upd_step c_net (u_sent, ISent CACHE_NAME u_reqs, [?t])
      (u_sent, ISent CACHE_NAME u_reqs, [\<lparr>t_req = c_index, t_phase = Hit c_cached\<rparr>])"
    using upd_step.fetch [OF conc_step.hit [where i = 0 and ts = "[?t]" and h = u_sent and r = c_cached and N = c_net]] m
    by simp
  have c: "upd_step c_net (u_sent, ISent CACHE_NAME u_reqs, [\<lparr>t_req = c_index, t_phase = Hit c_cached\<rparr>]) u_final"
    by (intro upd_step.install) (simp split: prod.splits)
  from upd_reach.step [OF upd_reach.step [OF upd_reach.step [OF upd_reach.step [OF upd_reach.step
        [OF upd_reach.start o] a] f1] f2] c]
  show ?thesis .
qed

subsection \<open>Install interleaved with fetch events\<close>

text \<open>
  C25. Fetch events served while the install chain runs do not disturb it: in
  every interleaving, the install settles with the outcome of the install
  listener run alone, and leaves the caches it leaves.
\<close>

theorem staged_install_as_handler:
  assumes "upd_reach N h0 (h, IDone r, ts)"
  shows "r = fst (install_handler N h0) \<and> caches h = caches (snd (install_handler N h0))"
  using upd_reach_inv [OF assms] by (simp add: upd_inv_def)

theorem staged_install_as_handler_witness:
  "upd_reach c_net c_host u_final \<and>
   fst (add_all_commit c_net CACHE_NAME u_reqs u_sent) = fst (install_handler c_net c_host) \<and>
   caches (snd (add_all_commit c_net CACHE_NAME u_reqs u_sent)) = caches (snd (install_handler c_net c_host))"
  using staged_install_as_handler [OF u_final_reach] u_final_reach by simp

text \<open>
  C26. Readers never see a partial install: at every point of every
  interleaving, the caches answer every request as they did before the install
  began, or every request as the finished install leaves them.
\<close>

theorem install_is_atomic_for_readers:
  assumes "upd_reach N h0 (h, ip, ts)"
  shows "(\<forall>q. match_caches q (caches h) = match_caches q (caches h0)) \<or>
         (\<forall>q. match_caches q (caches h) = match_caches q (caches (snd (install_handler N h0))))"
proof -
  from upd_reach_inv [OF assms] have "caches h = install_snapshot N h0 ip" by (simp add: upd_inv_def)
  then have "\<forall>q. match_caches q (caches h) = match_caches q (caches (view N h0 ip))"
    by (simp add: install_snapshot_view)
  with view_cases [of N h0 ip] show ?thesis by auto
qed

theorem install_is_atomic_for_readers_witness:
  "upd_reach c_net c_host u_final \<and>
   ((\<forall>q. match_caches q (caches (fst u_final)) = match_caches q (caches c_host)) \<or>
    (\<forall>q. match_caches q (caches (fst u_final)) = match_caches q (caches (snd (install_handler c_net c_host)))))"
  using install_is_atomic_for_readers [OF u_final_reach] u_final_reach by simp

text \<open>
  C27. Every answer a fetch event gets while the install runs is the answer of
  the fetch handler of src/sw.js on the host before the install or on the host
  after it: an old copy or the new one, never anything else.
\<close>

theorem answers_during_install:
  assumes "upd_reach N h0 (h, ip, ts)" and "t \<in> set ts" and "settled (t_phase t) = Some res"
  shows "res = fst (fetch_handler N (t_req t) h0) \<or>
         res = fst (fetch_handler N (t_req t) (snd (install_handler N h0)))"
proof -
  from upd_reach_inv [OF assms(1)] assms(2) have
    "phase_ok N h0 (t_req t) (t_phase t) \<or> phase_ok N (snd (install_handler N h0)) (t_req t) (t_phase t)"
    by (simp add: upd_inv_def tasks_ok_def)
  with phase_ok_settled [OF _ assms(3)] show ?thesis by metis
qed

theorem answers_during_install_witness:
  "upd_reach c_net c_host u_final \<and>
   \<lparr>t_req = c_index, t_phase = Hit c_cached\<rparr> \<in> set (snd (snd u_final)) \<and>
   settled (Hit c_cached) = Some (Inr c_cached) \<and>
   (Inr c_cached = fst (fetch_handler c_net c_index c_host) \<or>
    Inr c_cached = fst (fetch_handler c_net c_index (snd (install_handler c_net c_host))))"
proof -
  have t: "\<lparr>t_req = c_index, t_phase = Hit c_cached\<rparr> \<in> set [\<lparr>t_req = c_index, t_phase = Hit c_cached\<rparr>]" by simp
  have st: "settled (t_phase \<lparr>t_req = c_index, t_phase = Hit c_cached\<rparr>) = Some (Inr c_cached)" by simp
  from answers_during_install [OF u_final_reach t st] u_final_reach t show ?thesis by simp
qed

end
