(* ===== verification/Spec2Isabelle.thy ===== *)
theory Spec2Isabelle
  imports SW_Storage_Loss SW_Update SW_Event_Loop SW_Install_Stages
begin

text \<open>
  \<^bold>\<open>A verified model of the offline cache worker src/sw.js.\<close>

  \<^bold>\<open>The program.\<close>  src/sw.js is a service worker of 25 lines.  It names a cache
  (\<open>CACHE_NAME = 'uni-bot-v1'\<close>, line 1) and two assets (\<open>ASSETS = ['./',
  './index.html']\<close>, lines 4 to 7), and registers two listeners with
  \<open>self.addEventListener\<close>.  The install listener (lines 10 to 16) hands
  \<open>caches.open(CACHE_NAME).then(cache => cache.addAll(ASSETS))\<close> to
  \<open>e.waitUntil\<close>, so the worker is installed only if every asset is fetched and
  stored.  The fetch listener (lines 19 to 25) hands
  \<open>caches.match(e.request).then(response => response || fetch(e.request))\<close> to
  \<open>e.respondWith\<close>: a cached response if any cache has one, the network
  otherwise.  The two listeners share no variable; they interact only through the
  origin's caches, which install writes and fetch reads, and through the order
  the browser imposes (install, activate, then fetch events).

  \<^bold>\<open>The theories.\<close>
  \<^item> \<^theory_text>\<open>SW_Prelude\<close>: the promise model shared by every component.  A promise
    over a host state is a function from the state to a result (\<open>Inr\<close> value or
    \<open>Inl\<close> JavaScript error) and the next state; \<open>p_then\<close> is \<open>.then\<close>, which
    skips its callback on rejection but keeps the effects already made.  Generic
    lemmas on \<open>those\<close>, \<open>find\<close>, \<open>zip\<close> and ordered maps (\<open>AList\<close>), and the
    collection \<open>sw_simps\<close> of evaluation rules used by the witnesses.
  \<^item> \<^theory_text>\<open>Fetch_API\<close> (browser, modelled from the Fetch and URL standards):
    requests, responses, the network as \<open>request \<Rightarrow> response option\<close>, the global
    \<open>fetch\<close> (\<open>net_fetch\<close>), which appends the request to the network log and
    rejects with \<open>TypeError\<close> only on a network error, and the resolution of the
    relative asset paths against the script URL.
  \<^item> \<^theory_text>\<open>Cache_Storage\<close> (browser, modelled from the Service Worker
    specification's cache algorithms): the host record (network log, the origin's
    ordered map of named caches, script URL), \<open>caches.open\<close>
    (\<open>caches_open\<close>), \<open>caches.match\<close> (\<open>caches_match\<close>, \<open>match_caches\<close>: the
    first cache of the map that matches), \<open>cache.addAll\<close> (\<open>add_all\<close>: all
    requests sent, \<open>TypeError\<close> on a failed or non-ok response, then one atomic
    batch of puts that rejects with \<open>InvalidStateError\<close> on a duplicate),
    \<open>caches.delete\<close> (\<open>caches_delete\<close>) and the eviction of the origin's
    storage (\<open>evict_storage\<close>), which the script does not call but other scripts
    and the browser do.  Its lemmas give \<open>addAll\<close> on every branch
    (\<open>add_all_eq\<close>), the exact cache it leaves (\<open>add_all_cache_eq\<close>), what it
    stores (\<open>add_all_stores\<close>) and what it leaves alone.
  \<^item> \<^theory_text>\<open>SW_Handlers\<close> (src/sw.js): \<open>CACHE_NAME\<close>, \<open>ASSETS\<close>,
    \<open>open_then\<close> and \<open>install_handler\<close> (the install listener),
    \<open>match_then\<close> and \<open>fetch_handler\<close> (the fetch listener),
    \<open>sw_listeners\<close> (the registrations).  Claims C1 to C9: what install stores,
    sends and leaves, its errors, and the fetch handler on a hit, a miss and a
    non-GET request; C24: install grows the cache by at most one entry per asset.
  \<^item> \<^theory_text>\<open>SW_Lifecycle\<close> (browser): dispatch of install and fetch events to the
    registered listeners, the worker's states (parsed, installed, activated,
    redundant) as the inductive step relation \<open>worker_step\<close> (with writes of other
    scripts to other caches as steps of the environment), and its reachable
    states \<open>reach\<close> from any host.  Claims C10 to C13: the invariants proved by
    rule induction (every asset cached once installed; no asset request ever
    failed), offline answers of an activated worker, and reachability of
    activation.
  \<^item> \<^theory_text>\<open>SW_Concurrency\<close> (src/sw.js lines 19 to 25, stage by stage): the
    fetch listener's chain split at its two suspension points, \<open>caches.match\<close>
    resolving and the network answering, with any number of fetch events
    interleaving (\<open>conc_step\<close>, runs \<open>conc_reach\<close>), and the function
    \<open>resume\<close> (src/sw.js lines 21 to 23) that runs the next stage of one chain,
    each of its results a step of \<open>conc_step\<close> (\<open>resume_step\<close>), from which
    the runs of the witnesses are built.  Claims C18 and C19:
    every interleaving answers each request as the handler run alone does, sends
    one network request per miss and none per hit, and never writes a cache.
  \<^item> \<^theory_text>\<open>SW_Event_Loop\<close> (browser event loop over the same stages): a
    deterministic scheduler
    \<open>event_loop\<close>, a \<open>while_option\<close> that resumes the first pending chain
    until none is pending.  Claims C20 and C21: the loop halts on every state
    within two stages per pending request, and it answers every request as the
    handler run alone does.
  \<^item> \<^theory_text>\<open>SW_Storage_Loss\<close> (browser): the lifecycle of \<^theory_text>\<open>SW_Lifecycle\<close>
    with two more environment steps, \<open>caches.delete\<close> of any name by a page
    script and eviction of the storage (\<open>loss_step\<close>, \<open>loss_reach\<close>).  Claims
    C22 and C23: once the worker's cache is gone after install it never comes
    back, and while it is there it holds every asset.
  \<^item> \<^theory_text>\<open>SW_Update\<close> (browser): the update of a registration as the step
    relation \<open>reg_step\<close> over the shared host, the new worker's state, the number
    of open pages and the log of answers tagged with the version that gave them.
    The old worker (an earlier deployment with the same fetch listener) answers
    until the new one, having installed, is activated when no page is open; the
    script calls neither \<open>skipWaiting\<close> nor \<open>clients.claim\<close>.  Claim C28:
    an update, successful or not, never breaks offline serving.  The demo run
    \<open>upd_waiting\<close> (\<open>upd_waiting_reach\<close>) shows the old worker serving the
    new version's index page while the new one waits (a finding).
  \<^item> \<^theory_text>\<open>SW_Install_Stages\<close> (src/sw.js lines 12 to 14, stage by stage): the
    install chain split where it suspends (\<open>install_stage\<close> over
    \<open>install_phase\<close>: \<open>caches.open\<close> resolving, \<open>addAll\<close>'s requests sent,
    the responses in and the batch run by \<open>add_all_commit\<close>), interleaved with
    the fetch stages of \<^theory_text>\<open>SW_Concurrency\<close> as when a new version installs
    while the previous one serves (\<open>upd_step\<close>, \<open>upd_reach\<close>).  Claims C25 to
    C27: the install's outcome is the handler's, readers see the caches before or
    after the install as a whole, and every answer is the handler's on one of the
    two.
  \<^item> \<^theory_text>\<open>Spec2Isabelle\<close> (this theory): the specification's view, a single
    bucket as a map from URLs to responses (\<open>abs_of\<close>, \<open>spec_install\<close>,
    \<open>spec_fetch\<close>).  Claims C14 to C17: install and fetch refine it (fetch under
    the specification's assumption that \<open>uni-bot-v1\<close> is the only cache),
    an older cache shadows the install (a finding), and the install-then-fetch
    round trip.

  \<^bold>\<open>Findings.\<close>  \<open>caches.match\<close> reads every cache of the origin in creation
  order, not only \<open>uni-bot-v1\<close>, and the script never deletes old caches: a
  cache of an earlier version that holds an asset keeps answering it after a new
  install (C16, \<open>older_cache_shadows_install\<close>).  A failed install leaves an
  empty \<open>uni-bot-v1\<close> behind, created by \<open>caches.open\<close> before \<open>addAll\<close>
  rejected (C4 and its witness).  Install is all-or-nothing on the cache
  contents (C4, C14),
  which the specification leaves open ("no partial cache is guaranteed").
  The specification says the bucket persists and is written only at install; the
  browser may still evict it, and other scripts may delete it, and then nothing
  rebuilds it while this worker runs: offline serving is lost for good (C22).
  The cache name is the same for every deployment, so a new version's
  install overwrites \<open>uni-bot-v1\<close> in place and the old worker, still in
  control of open pages, serves them the new assets (\<open>upd_waiting_reach\<close>
  in \<^theory_text>\<open>SW_Update\<close>); the specification
  leaves versioning open.

  \<^bold>\<open>Bounds and termination.\<close>  Every operation is total and terminates by
  structural recursion (\<open>batch_put\<close>, \<open>match_caches\<close>, the dispatchers,
  \<open>first_pending\<close>); there is no fuel.  The one loop, the event loop of
  \<^theory_text>\<open>SW_Event_Loop\<close>, is a \<open>while_option\<close>, whose halting is proved
  (\<open>event_loop_stage_bound\<close>) with the measure \<open>pending_weight\<close>: two stages
  for a chain waiting for \<open>caches.match\<close>, one for a chain waiting for the
  network.  A network that never answers is modelled in \<^theory_text>\<open>SW_Concurrency\<close>
  only, as a task that stays \<open>Fetching\<close> because no step settles it; the event
  loop's network answers every request.  Status codes are natural numbers: the
  script does no arithmetic that could overflow; the bound on the cache size
  (C24) is a bound on list lengths.

  \<^bold>\<open>Not modelled.\<close>  Requests that never settle (a hanging network would leave
  a promise pending: here every request answers or fails), HTTP headers (\<open>Vary\<close>),
  redirects, opaque and partial responses beyond the 206 check, quota errors,
  eviction of single caches (the browser evicts the storage as a whole),
  \<open>ignoreSearch\<close> and the other match options,
  relative references with \<open>..\<close> or a query, writes of other scripts while
  an install runs (the staged install of \<^theory_text>\<open>SW_Install_Stages\<close>
  interleaves fetch events only), earlier deployments whose fetch listener
  differs from lines 19 to 25 (\<^theory_text>\<open>SW_Update\<close> gives the old worker this
  script's listener, the only one the repository has), and the page that
  registers the worker, which is not under src/.

  \<^bold>\<open>What is left open.\<close>  Every line of src/sw.js is modelled: the two
  constants, both listeners as whole handlers (\<^theory_text>\<open>SW_Handlers\<close>) and
  stage by stage (\<^theory_text>\<open>SW_Concurrency\<close>, \<^theory_text>\<open>SW_Install_Stages\<close>), and their
  registration; the lines the map leaves out are comments and blank lines.  What the
  development could still add concerns the browser, not the script: one step
  relation joining \<^theory_text>\<open>SW_Update\<close> with the staged install of
  \<^theory_text>\<open>SW_Install_Stages\<close>, and networks that change during a run of concurrent
  fetch events (each run of \<^theory_text>\<open>SW_Concurrency\<close> fixes one network; the
  lifecycle theories let it change between steps).
\<close>

section \<open>The specification's single bucket\<close>

text \<open>
  spec.md describes one cache bucket mapping a request identity to a stored
  response; install adds every asset or fails as a whole, and fetch answers from
  the bucket or from the network.  The abstract store is a map from fragment-free
  URLs of GET requests to responses.  \<open>single_bucket\<close> is the situation the
  specification assumes: \<open>uni-bot-v1\<close> is the only cache of the origin.
\<close>

type_synonym abs_store = "url \<Rightarrow> response option"

definition single_bucket :: "cache_map \<Rightarrow> bool" where
  "single_bucket cs \<longleftrightarrow> fst ` set cs \<subseteq> {CACHE_NAME} \<and> distinct (map fst cs)"

definition abs_of :: "'a host_scheme \<Rightarrow> abs_store" where
  "abs_of h u = cache_match \<lparr>req_url = u, req_method = GET\<rparr> (cache_of h CACHE_NAME)"

definition spec_lookup :: "abs_store \<Rightarrow> request \<Rightarrow> response option" where
  "spec_lookup st q = (if req_method q = GET then st (exclude_fragment (req_url q)) else None)"

definition spec_fetch :: "network \<Rightarrow> request \<Rightarrow> abs_store \<Rightarrow> ('a net_state_scheme, response) promise" where
  "spec_fetch N q st = (case spec_lookup st q of Some r \<Rightarrow> p_resolve r | None \<Rightarrow> net_fetch N q)"

definition spec_install :: "network \<Rightarrow> url \<Rightarrow> abs_store \<Rightarrow> abs_store option" where
  "spec_install N base st =
     (let reqs = map (new_request base) ASSETS
      in if all_cacheable N reqs
         then Some (\<lambda>u. case find (\<lambda>q. match_key q = exclude_fragment u) reqs of
                          Some q \<Rightarrow> N q | None \<Rightarrow> st u)
         else None)"

section \<open>Refinement lemmas\<close>

lemma single_bucket_match_caches:
  "single_bucket cs \<Longrightarrow> match_caches q cs = cache_match q (case map_of cs CACHE_NAME of None \<Rightarrow> [] | Some c \<Rightarrow> c)"
proof (cases cs)
  case Nil
  then show ?thesis by (simp add: cache_match_def query_cache_def)
next
  case (Cons nc rest)
  assume sb: "single_bucket cs"
  with Cons have "rest = []"
    by (cases rest) (auto simp: single_bucket_def)
  with sb Cons show ?thesis
    by (cases nc) (auto simp: single_bucket_def split: option.splits)
qed

lemma abs_of_key:
  "req_method q = GET \<Longrightarrow> abs_of h (exclude_fragment (req_url q)) = cache_match q (cache_of h CACHE_NAME)"
  by (simp add: abs_of_def cache_match_def query_cache_def request_matches_def match_key_def)

lemma abs_of_caches_open [simp]: "abs_of (snd (caches_open CACHE_NAME h)) = abs_of h"
  by (simp add: abs_of_def fun_eq_iff)

lemma abs_of_net_log [simp]: "abs_of (h\<lparr>net_log := l\<rparr>) = abs_of h"
  by (simp add: abs_of_def fun_eq_iff)

text \<open>What a successful install does to the abstract store, point by point.\<close>

lemma abs_of_install_ok:
  assumes ok: "all_cacheable N (map (new_request (script_url h)) ASSETS)"
  shows "abs_of (snd (install_handler N h)) u =
           (case List.find (\<lambda>q. match_key q = exclude_fragment u) (map (new_request (script_url h)) ASSETS) of
              Some q \<Rightarrow> N q | None \<Rightarrow> abs_of h u)"
proof -
  let ?reqs = "map (new_request (script_url h)) ASSETS"
  let ?ops = "map (\<lambda>x. (x, the (N x))) ?reqs"
  let ?u = "\<lparr>req_url = u, req_method = GET\<rparr>"
  have res: "abs_of (snd (install_handler N h)) u =
               cache_match ?u (fold (\<lambda>qr c. put_entry c qr) ?ops (cache_of h CACHE_NAME))"
    using ok by (simp add: install_handler_cases Let_def abs_of_def zip_map_map zip_same_conv_map comp_def)
  show ?thesis
  proof (cases "List.find (\<lambda>q. match_key q = exclude_fragment u) ?reqs")
    case None
    then have "\<forall>x\<in>set ?ops. \<not> request_matches ?u (fst x)"
      by (auto simp: find_None_iff request_matches_def match_key_def)
    with None res show ?thesis
      by (simp add: cache_match_fold_put_notin abs_of_def)
  next
    case (Some q)
    from find_SomeD [OF Some] have q: "q \<in> set ?reqs" and k: "match_key q = exclude_fragment u"
      by simp_all
    from q ok obtain r where r: "N q = Some r"
      by (auto simp: all_cacheable_def list_all_iff split: option.splits)
    have "all_GET ?ops" by auto
    moreover have "distinct (batch_keys ?ops)" using asset_keys_distinct by (simp add: comp_def)
    moreover have "(q, the (N q)) \<in> set ?ops" using q by auto
    moreover have "request_matches ?u q" using k by (simp add: request_matches_def match_key_def)
    ultimately have "cache_match ?u (fold (\<lambda>qr c. put_entry c qr) ?ops (cache_of h CACHE_NAME)) = Some (the (N q))"
      using cache_match_fold_put_in [where ops = ?ops and qr = "(q, the (N q))" and q = ?u] by simp
    with Some res r show ?thesis by simp
  qed
qed

lemma abs_of_install_fail:
  "\<not> all_cacheable N (map (new_request (script_url h)) ASSETS) \<Longrightarrow>
   abs_of (snd (install_handler N h)) = abs_of h"
  by (simp add: install_handler_cases Let_def)

text \<open>What install does to the order of the cache map: caches created before
  \<open>uni-bot-v1\<close> keep their place in front of it.\<close>

lemma install_keeps_head:
  assumes "caches h = (n, c) # rest" and "n \<noteq> CACHE_NAME"
  shows "\<exists>rest'. caches (snd (install_handler N h)) = (n, c) # rest'"
  using assms by (auto simp: install_handler_cases Let_def caches_open_def)

lemma single_bucket_install:
  "single_bucket (caches h) \<Longrightarrow> single_bucket (caches (snd (install_handler N h)))"
  by (simp add: single_bucket_def install_handler_cases Let_def caches_open_def
      AList.dom_update AList.distinct_update map_of_eq_None_iff)

section \<open>Properties that span the components\<close>

text \<open>
  C14. Install refines the specification's install: when every asset can be
  fetched and cached, the abstract store of \<open>uni-bot-v1\<close> becomes the old one
  overridden by the assets' responses; otherwise install rejects with a
  \<open>TypeError\<close> and the abstract store is unchanged (all or nothing).
\<close>

theorem install_refines_spec:
  "(case spec_install N (script_url h) (abs_of h) of
      None \<Rightarrow> fst (install_handler N h) = Inl TypeError \<and> abs_of (snd (install_handler N h)) = abs_of h
    | Some st \<Rightarrow> fst (install_handler N h) = Inr () \<and> abs_of (snd (install_handler N h)) = st)"
proof (cases "all_cacheable N (map (new_request (script_url h)) ASSETS)")
  case True
  then show ?thesis
    by (simp add: spec_install_def install_handler_resolves_iff abs_of_install_ok fun_eq_iff)
next
  case False
  then show ?thesis
    by (simp add: spec_install_def abs_of_install_fail install_handler_cases Let_def)
qed

text \<open>
  C15. Where \<open>uni-bot-v1\<close> is the only cache, as the specification assumes, the
  fetch handler refines the specification's fetch: it answers from the abstract
  store when the store has the request, and otherwise sends it to the network.
\<close>

theorem fetch_refines_spec:
  "single_bucket (caches h) \<Longrightarrow> fetch_handler N q h = spec_fetch N q (abs_of h) h"
proof -
  assume sb: "single_bucket (caches h)"
  have "match_caches q (caches h) = spec_lookup (abs_of h) q"
  proof (cases "req_method q = GET")
    case True
    with sb show ?thesis
      by (simp add: single_bucket_match_caches spec_lookup_def abs_of_key cache_of_def)
  next
    case False
    then show ?thesis by (simp add: match_caches_non_GET spec_lookup_def)
  qed
  then show ?thesis
    by (simp add: fetch_handler_eq spec_fetch_def p_resolve_def split: option.splits)
qed

theorem fetch_refines_spec_witness:
  "single_bucket [(CACHE_NAME, [(demo_index, \<lparr>status = 200, body = ''hi''\<rparr>)])] \<and>
   fetch_handler demo_net demo_index \<lparr>net_log = [], caches = [(CACHE_NAME, [(demo_index, \<lparr>status = 200, body = ''hi''\<rparr>)])],
       script_url = ''/sw.js''\<rparr> =
   spec_fetch demo_net demo_index (abs_of \<lparr>net_log = [], caches = [(CACHE_NAME, [(demo_index, \<lparr>status = 200, body = ''hi''\<rparr>)])],
       script_url = ''/sw.js''\<rparr>)
     \<lparr>net_log = [], caches = [(CACHE_NAME, [(demo_index, \<lparr>status = 200, body = ''hi''\<rparr>)])], script_url = ''/sw.js''\<rparr>"
proof -
  have sb: "single_bucket [(CACHE_NAME, [(demo_index, \<lparr>status = 200, body = ''hi''\<rparr>)])]"
    by (simp add: single_bucket_def)
  from fetch_refines_spec [where h = "\<lparr>net_log = [], caches = [(CACHE_NAME, [(demo_index, \<lparr>status = 200, body = ''hi''\<rparr>)])],
       script_url = ''/sw.js''\<rparr>" and N = demo_net and q = demo_index] sb
  show ?thesis by simp
qed

text \<open>
  C16. A cache created before \<open>uni-bot-v1\<close> shadows it: if the first cache of
  the map, under another name, answers a request, then after any install the
  fetch handler still answers with that older response, whatever install stored.
  Since no activate listener deletes old caches, renaming the cache to publish new
  assets leaves the old copies in front.
\<close>

theorem older_cache_shadows_install:
  assumes "caches h = (n, c) # rest" and "n \<noteq> CACHE_NAME" and "cache_match q c = Some r"
  shows "fetch_handler N' q (snd (install_handler N h)) = (Inr r, snd (install_handler N h))"
proof -
  from install_keeps_head [OF assms(1,2)] obtain rest'
    where "caches (snd (install_handler N h)) = (n, c) # rest'" by blast
  with assms(3) show ?thesis by (simp add: fetch_handler_eq)
qed

theorem older_cache_shadows_install_witness:
  "caches \<lparr>net_log = [], caches = [(''uni-bot-v0'', [(demo_index, \<lparr>status = 200, body = ''old''\<rparr>)])],
      script_url = ''/sw.js''\<rparr> = [(''uni-bot-v0'', [(demo_index, \<lparr>status = 200, body = ''old''\<rparr>)])] \<and>
   ''uni-bot-v0'' \<noteq> CACHE_NAME \<and>
   cache_match demo_index [(demo_index, \<lparr>status = 200, body = ''old''\<rparr>)] = Some \<lparr>status = 200, body = ''old''\<rparr> \<and>
   fst (install_handler demo_net \<lparr>net_log = [], caches = [(''uni-bot-v0'', [(demo_index, \<lparr>status = 200, body = ''old''\<rparr>)])],
      script_url = ''/sw.js''\<rparr>) = Inr () \<and>
   fst (fetch_handler demo_net demo_index (snd (install_handler demo_net
      \<lparr>net_log = [], caches = [(''uni-bot-v0'', [(demo_index, \<lparr>status = 200, body = ''old''\<rparr>)])],
       script_url = ''/sw.js''\<rparr>))) = Inr \<lparr>status = 200, body = ''old''\<rparr>"
proof -
  let ?h = "\<lparr>net_log = [], caches = [(''uni-bot-v0'', [(demo_index, \<lparr>status = 200, body = ''old''\<rparr>)])],
      script_url = ''/sw.js''\<rparr> :: host"
  have c: "caches ?h = [(''uni-bot-v0'', [(demo_index, \<lparr>status = 200, body = ''old''\<rparr>)])]" by simp
  have n: "''uni-bot-v0'' \<noteq> CACHE_NAME" by (simp add: CACHE_NAME_def)
  have m: "cache_match demo_index [(demo_index, \<lparr>status = 200, body = ''old''\<rparr>)] = Some \<lparr>status = 200, body = ''old''\<rparr>"
    by (simp add: match_simps)
  have ok: "fst (install_handler demo_net ?h) = Inr ()" by (simp add: sw_simps Let_def)
  from older_cache_shadows_install [OF c n m, of demo_net demo_net] c n m ok show ?thesis by simp
qed

text \<open>
  C17. Install followed by fetch is a round trip: where \<open>uni-bot-v1\<close> is the
  only cache, after a successful install a request matching an asset is
  answered, with no network request, by the very response the network gave at
  install time.
\<close>

theorem install_then_fetch_roundtrip:
  assumes "single_bucket (caches h)" and "fst (install_handler N h) = Inr ()"
    and "p \<in> set ASSETS" and "request_matches q (new_request (script_url h) p)"
  shows "\<exists>r. N (new_request (script_url h) p) = Some r \<and>
             fetch_handler N' q (snd (install_handler N h)) = (Inr r, snd (install_handler N h))"
proof -
  let ?h1 = "snd (install_handler N h)"
  let ?x = "new_request (script_url h) p"
  from assms(2) have ok: "all_cacheable N (map (new_request (script_url h)) ASSETS)"
    by (simp add: install_handler_resolves_iff)
  with assms(3) obtain r where r: "N ?x = Some r"
    by (auto simp: all_cacheable_def list_all_iff split: option.splits)
  have "find (\<lambda>q'. match_key q' = exclude_fragment (req_url q)) (map (new_request (script_url h)) ASSETS) \<noteq> None"
    using assms(3,4) by (auto simp: find_None_iff request_matches_def match_key_def)
  then obtain y where y: "find (\<lambda>q'. match_key q' = exclude_fragment (req_url q)) (map (new_request (script_url h)) ASSETS) = Some y"
    by blast
  from find_SomeD [OF y] assms(3,4) have "y = ?x"
    using asset_keys_distinct [of "script_url h"]
    by (auto simp: request_matches_def match_key_def distinct_map inj_on_def)
  with y ok r have "abs_of ?h1 (exclude_fragment (req_url q)) = Some r"
    by (simp add: abs_of_install_ok)
  moreover have "req_method q = GET" using assms(4) by (simp add: request_matches_def)
  moreover have "single_bucket (caches ?h1)" using assms(1) by (rule single_bucket_install)
  ultimately have "match_caches q (caches ?h1) = Some r"
    by (simp add: single_bucket_match_caches abs_of_key cache_of_def)
  with r show ?thesis by (simp add: fetch_handler_eq)
qed

theorem install_then_fetch_roundtrip_witness:
  "single_bucket (caches demo_host) \<and> fst (install_handler demo_net demo_host) = Inr () \<and>
   ''./index.html'' \<in> set ASSETS \<and> request_matches demo_index (new_request ''/sw.js'' ''./index.html'') \<and>
   fetch_handler (\<lambda>q. None) demo_index (snd (install_handler demo_net demo_host)) =
     (Inr \<lparr>status = 200, body = ''/index.html''\<rparr>, snd (install_handler demo_net demo_host))"
proof -
  have a: "single_bucket (caches demo_host)" by (simp add: single_bucket_def)
  have b: "fst (install_handler demo_net demo_host) = Inr ()" by (simp add: sw_simps Let_def)
  have c: "''./index.html'' \<in> set ASSETS" by (simp add: ASSETS_def)
  have d: "request_matches demo_index (new_request (script_url demo_host) ''./index.html'')"
    by (simp add: match_simps new_request_def resolve_url_def base_dir_def strip_query_fragment_def)
  have e: "new_request (script_url demo_host) ''./index.html'' = demo_index"
    by (simp add: new_request_def resolve_url_def base_dir_def strip_query_fragment_def)
  from install_then_fetch_roundtrip [OF a b c d, of "\<lambda>q. None"] a b c d e show ?thesis by auto
qed

end
